theory Spec2Isabelle
  imports Main "HOL-Library.AList" "HOL-Library.List_Lexorder" "HOL-Library.Char_ord"
begin

section \<open>Errors and fallible computations\<close>

text \<open>
  Every Python exception the modelled code can raise is a value of \<open>error\<close>. A pure
  computation that may raise returns \<open>error + 'a\<close>; a computation that also touches the
  filesystem takes the state and returns the result together with the state it leaves
  behind, so that the state reached when an exception escapes is part of the model.
\<close>

datatype error =
    AssertionError | ValueError | AttributeError
  | FileNotFoundError | FileExistsError | NotADirectoryError | IsADirectoryError
  | RecursionError

definition err_bind :: "error + 'a \<Rightarrow> ('a \<Rightarrow> error + 'b) \<Rightarrow> error + 'b" where
  "err_bind m f = (case m of Inl e \<Rightarrow> Inl e | Inr x \<Rightarrow> f x)"

definition py_assert :: "bool \<Rightarrow> error + unit" where
  "py_assert b = (if b then Inr () else Inl AssertionError)"

definition io_bind ::
  "('s \<Rightarrow> (error + 'a) \<times> 's) \<Rightarrow> ('a \<Rightarrow> 's \<Rightarrow> (error + 'b) \<times> 's) \<Rightarrow> 's \<Rightarrow> (error + 'b) \<times> 's" where
  "io_bind m f s = (case m s of (Inl e, s') \<Rightarrow> (Inl e, s') | (Inr x, s') \<Rightarrow> f x s')"

definition io_pure :: "error + 'a \<Rightarrow> 's \<Rightarrow> (error + 'a) \<times> 's" where
  "io_pure r s = (r, s)"

section \<open>Paths (os.path)\<close>

text \<open>
  A path string is modelled by its parsed form: whether it is absolute, and its list of
  segments. \<open>/a/b\<close> is \<open>Pth True [a, b]\<close>, \<open>a/b\<close> is \<open>Pth False [a, b]\<close>, the empty
  string is \<open>Pth False []\<close> and \<open>/\<close> is \<open>Pth True []\<close>. Only normalised paths are
  represented: segments are plain names (no \<open>.\<close>, \<open>..\<close>, empty segment or slash inside).
\<close>

datatype pth = Pth (is_abs: bool) (segs: "string list")

fun join_segs :: "string list \<Rightarrow> string" where
  "join_segs [] = []"
| "join_segs [x] = x"
| "join_segs (x # y # ys) = x @ ''/'' @ join_segs (y # ys)"

definition path_str :: "pth \<Rightarrow> string" where
  "path_str p = (if is_abs p then ''/'' else []) @ join_segs (segs p)"

definition os_path_join :: "pth \<Rightarrow> pth \<Rightarrow> pth" where
  "os_path_join a b = (if is_abs b then b else Pth (is_abs a) (segs a @ segs b))"

definition os_path_split :: "pth \<Rightarrow> pth \<times> string" where
  "os_path_split p =
     (if segs p = [] then (p, []) else (Pth (is_abs p) (butlast (segs p)), last (segs p)))"

text \<open>
  \<open>_os_path_split_all\<close>: the \<open>while 1\<close> loop, with \<open>allparts\<close> as accumulator. The first
  sentinel fires at \<open>/\<close> and at the empty string, the second at a single relative name
  (the tail equals the whole path, compared here on the parsed forms).
\<close>

function os_path_split_all :: "pth \<Rightarrow> string list \<Rightarrow> string list" where
  "os_path_split_all p allparts =
     (if fst (os_path_split p) = p then path_str (fst (os_path_split p)) # allparts
      else if Pth False [snd (os_path_split p)] = p then snd (os_path_split p) # allparts
      else os_path_split_all (fst (os_path_split p)) (snd (os_path_split p) # allparts))"
  by pat_completeness auto
termination
  by (relation "measure (\<lambda>(p, a). length (segs p))")
     (auto simp: os_path_split_def split: if_splits)

declare os_path_split_all.simps [simp del]

definition path_has_depth :: "pth \<Rightarrow> nat \<Rightarrow> bool" where
  "path_has_depth p d = (length (os_path_split_all p []) = d)"

text \<open>
  \<open>_path_is_relative\<close> compares \<open>os.path.relpath(pth)\<close> with \<open>pth\<close>. On the empty string
  \<open>relpath\<close> raises \<open>ValueError\<close>; a normalised relative path is its own \<open>relpath\<close>; the
  \<open>relpath\<close> of an absolute path is relative and so differs from it.
\<close>

definition path_is_relative :: "pth \<Rightarrow> error + bool" where
  "path_is_relative p =
     (if \<not> is_abs p \<and> segs p = [] then Inl ValueError else Inr (\<not> is_abs p))"

section \<open>The filesystem\<close>

text \<open>
  The process environment: the working directory, the filesystem as an association list
  from absolute segment lists to nodes (the first entry for a key counts; the root
  directory always exists), and two counters of the document reads and writes, which only
  \<open>read_json\<close> and \<open>write_json\<close> advance. The type of file contents is a parameter:
  text for the directory layer, parsed documents for the document layer.
\<close>

datatype 'c node = Dir | File 'c

record 'c os_state =
  cwd :: "string list"
  nodes :: "(string list \<times> 'c node) list"
  doc_reads :: nat
  doc_writes :: nat

definition abs_segs :: "'c os_state \<Rightarrow> pth \<Rightarrow> string list" where
  "abs_segs s p = (if is_abs p then segs p else cwd s @ segs p)"

definition os_path_abspath :: "'c os_state \<Rightarrow> pth \<Rightarrow> pth" where
  "os_path_abspath s p = Pth True (abs_segs s p)"

definition lookup_segs :: "'c os_state \<Rightarrow> string list \<Rightarrow> 'c node option" where
  "lookup_segs s q = (if q = [] then Some Dir else map_of (nodes s) q)"

definition lookup :: "'c os_state \<Rightarrow> pth \<Rightarrow> 'c node option" where
  "lookup s p = (if \<not> is_abs p \<and> segs p = [] then None else lookup_segs s (abs_segs s p))"

definition os_path_exists :: "'c os_state \<Rightarrow> pth \<Rightarrow> bool" where
  "os_path_exists s p = (case lookup s p of None \<Rightarrow> False | Some n \<Rightarrow> True)"

definition os_path_isdir :: "'c os_state \<Rightarrow> pth \<Rightarrow> bool" where
  "os_path_isdir s p = (case lookup s p of Some Dir \<Rightarrow> True | _ \<Rightarrow> False)"

definition os_path_isfile :: "'c os_state \<Rightarrow> pth \<Rightarrow> bool" where
  "os_path_isfile s p = (case lookup s p of Some (File c) \<Rightarrow> True | _ \<Rightarrow> False)"

definition put_node :: "'c os_state \<Rightarrow> string list \<Rightarrow> 'c node \<Rightarrow> 'c os_state" where
  "put_node s q n = s\<lparr>nodes := AList.update q n (nodes s)\<rparr>"

text \<open>
  A path that cannot be resolved fails with \<open>NotADirectoryError\<close> when a regular file lies
  on the way to it, and with \<open>FileNotFoundError\<close> otherwise.
\<close>

definition under_file :: "'c os_state \<Rightarrow> string list \<Rightarrow> bool" where
  "under_file s q =
     list_ex (\<lambda>n. case lookup_segs s (take n q) of Some (File c) \<Rightarrow> True | _ \<Rightarrow> False)
             [0..<length q]"

definition missing_error :: "'c os_state \<Rightarrow> pth \<Rightarrow> error" where
  "missing_error s p =
     (if under_file s (abs_segs s p) then NotADirectoryError else FileNotFoundError)"

definition parent_error :: "'c os_state \<Rightarrow> pth \<Rightarrow> error option" where
  "parent_error s p =
     (case lookup_segs s (butlast (abs_segs s p)) of
        Some Dir \<Rightarrow> None
      | _ \<Rightarrow> Some (missing_error s p))"

definition os_mkdir :: "pth \<Rightarrow> 'c os_state \<Rightarrow> (error + unit) \<times> 'c os_state" where
  "os_mkdir p s =
     (if \<not> is_abs p \<and> segs p = [] then (Inl FileNotFoundError, s)
      else if os_path_exists s p then (Inl FileExistsError, s)
      else (case parent_error s p of
              Some e \<Rightarrow> (Inl e, s)
            | None \<Rightarrow> (Inr (), put_node s (abs_segs s p) Dir)))"

text \<open>
  \<open>os.makedirs(name)\<close> with \<open>exist_ok=False\<close>: the missing ancestors are made first,
  tolerating a \<open>FileExistsError\<close> from the recursive call, then the leaf with \<open>mkdir\<close>.
\<close>

function os_makedirs :: "pth \<Rightarrow> 'c os_state \<Rightarrow> (error + unit) \<times> 'c os_state" where
  "os_makedirs p s =
     (if (is_abs (fst (os_path_split p)) \<or> segs (fst (os_path_split p)) \<noteq> [])
         \<and> snd (os_path_split p) \<noteq> [] \<and> \<not> os_path_exists s (fst (os_path_split p))
      then (case os_makedirs (fst (os_path_split p)) s of
              (Inl e, s') \<Rightarrow> if e = FileExistsError then os_mkdir p s' else (Inl e, s')
            | (Inr u, s') \<Rightarrow> os_mkdir p s')
      else os_mkdir p s)"
  by pat_completeness auto
termination
  by (relation "measure (\<lambda>(p, s). length (segs p))")
     (auto simp: os_path_split_def split: if_splits)

declare os_makedirs.simps [simp del]

definition is_under :: "string list \<Rightarrow> string list \<Rightarrow> bool" where
  "is_under q a = (take (length a) q = a)"

definition shutil_rmtree :: "pth \<Rightarrow> 'c os_state \<Rightarrow> (error + unit) \<times> 'c os_state" where
  "shutil_rmtree p s =
     (case lookup s p of
        None \<Rightarrow> (Inl (missing_error s p), s)
      | Some (File c) \<Rightarrow> (Inl NotADirectoryError, s)
      | Some Dir \<Rightarrow>
          (Inr (), s\<lparr>nodes := filter (\<lambda>(q, n). \<not> is_under q (abs_segs s p)) (nodes s)\<rparr>))"

definition os_remove :: "pth \<Rightarrow> 'c os_state \<Rightarrow> (error + unit) \<times> 'c os_state" where
  "os_remove p s =
     (case lookup s p of
        None \<Rightarrow> (Inl (missing_error s p), s)
      | Some Dir \<Rightarrow> (Inl IsADirectoryError, s)
      | Some (File c) \<Rightarrow> (Inr (), s\<lparr>nodes := AList.delete (abs_segs s p) (nodes s)\<rparr>))"

text \<open>
  Modelled from the spec: \<open>autofile.io_.write_file\<close> and \<open>autofile.io_.read_file\<close> are not
  among the sources. Writing replaces the whole file at \<open>directory/name\<close>; reading a file
  that does not exist is a missing-resource failure.
\<close>

definition io_write_file :: "pth \<Rightarrow> 'c \<Rightarrow> 'c os_state \<Rightarrow> (error + unit) \<times> 'c os_state" where
  "io_write_file p c s =
     (if \<not> is_abs p \<and> segs p = [] then (Inl FileNotFoundError, s)
      else if os_path_isdir s p then (Inl IsADirectoryError, s)
      else (case parent_error s p of
              Some e \<Rightarrow> (Inl e, s)
            | None \<Rightarrow> (Inr (), put_node s (abs_segs s p) (File c))))"

definition io_read_file :: "pth \<Rightarrow> 'c os_state \<Rightarrow> error + 'c" where
  "io_read_file p s =
     (case lookup s p of
        None \<Rightarrow> Inl (missing_error s p)
      | Some Dir \<Rightarrow> Inl IsADirectoryError
      | Some (File c) \<Rightarrow> Inr c)"

section \<open>DataFile\<close>

text \<open>
  The file name is one path segment. The constructor takes the name, the writer and the
  reader, and sets \<open>removable\<close> to \<open>False\<close>; it has no parameter for it. The attributes
  \<open>writer_\<close>, \<open>reader_\<close> and, below, \<open>map_\<close> are written \<open>writer\<close>, \<open>reader\<close> and
  \<open>map_fn\<close>, and the leading underscore of a private method is dropped.
\<close>

datatype 'a DataFile =
  DataFile (name: string) (writer: "'a \<Rightarrow> string") (reader: "string \<Rightarrow> 'a") (removable: bool)

definition DataFile_init :: "string \<Rightarrow> ('a \<Rightarrow> string) \<Rightarrow> (string \<Rightarrow> 'a) \<Rightarrow> 'a DataFile" where
  "DataFile_init nm writer_fn reader_fn = DataFile nm writer_fn reader_fn False"

definition DataFile_path :: "'a DataFile \<Rightarrow> pth \<Rightarrow> pth" where
  "DataFile_path df dir_pth = os_path_join dir_pth (Pth False [name df])"

definition DataFile_exists :: "'a DataFile \<Rightarrow> pth \<Rightarrow> string os_state \<Rightarrow> bool" where
  "DataFile_exists df dir_pth s = os_path_isfile s (DataFile_path df dir_pth)"

definition DataFile_write ::
  "'a DataFile \<Rightarrow> 'a \<Rightarrow> pth \<Rightarrow> string os_state \<Rightarrow> (error + unit) \<times> string os_state" where
  "DataFile_write df val dir_pth s =
     (if \<not> os_path_exists s dir_pth then (Inl AssertionError, s)
      else io_write_file (DataFile_path df dir_pth) (writer df val) s)"

definition DataFile_read :: "'a DataFile \<Rightarrow> pth \<Rightarrow> string os_state \<Rightarrow> error + 'a" where
  "DataFile_read df dir_pth s =
     (if \<not> DataFile_exists df dir_pth s then Inl AssertionError
      else err_bind (io_read_file (DataFile_path df dir_pth) s) (\<lambda>val_str. Inr (reader df val_str)))"

definition DataFile_remove ::
  "'a DataFile \<Rightarrow> pth \<Rightarrow> string os_state \<Rightarrow> (error + unit) \<times> string os_state" where
  "DataFile_remove df dir_pth s =
     (if DataFile.removable df then os_remove (DataFile_path df dir_pth) s
      else (Inl ValueError, s))"

section \<open>DataSeries\<close>

datatype 'l DataSeries =
  DataSeries (prefix: pth) (map_fn: "'l list \<Rightarrow> pth") (nlocs: nat) (depth: nat)
    (loc_dfile: "'l list DataFile option") (root: "'l DataSeries option") (removable: bool)

text \<open>
  \<open>__init__\<close>: the prefix must be a directory when the object is made, and is stored in
  absolute form. The namespaces \<open>file\<close> and \<open>json\<close>, to which named accessors are
  attached, carry no behaviour of their own and are left out; the constant \<open>JSON\<close> is the
  name \<open>db.json\<close> in \<open>json_path\<close>.
\<close>

definition DataSeries_init ::
  "pth \<Rightarrow> ('l list \<Rightarrow> pth) \<Rightarrow> nat \<Rightarrow> nat \<Rightarrow> 'l list DataFile option \<Rightarrow> 'l DataSeries option \<Rightarrow> bool
     \<Rightarrow> 'c os_state \<Rightarrow> error + 'l DataSeries" where
  "DataSeries_init pfx m n d loc_df root_ds rm s =
     (if os_path_isdir s pfx
      then Inr (DataSeries (os_path_abspath s pfx) m n d loc_df root_ds rm)
      else Inl AssertionError)"

fun root_locator_count :: "'l DataSeries \<Rightarrow> nat" where
  "root_locator_count (DataSeries pfx m n d l None rm) = 0"
| "root_locator_count (DataSeries pfx m n d l (Some r) rm) = nlocs r + root_locator_count r"

definition self_locators :: "'l DataSeries \<Rightarrow> 'l list \<Rightarrow> error + 'l list" where
  "self_locators ds locs =
     err_bind (py_assert (length locs \<ge> nlocs ds))
       (\<lambda>u. Inr (drop (length locs - nlocs ds) locs))"

definition root_locators :: "'l DataSeries \<Rightarrow> 'l list \<Rightarrow> error + 'l list" where
  "root_locators ds locs =
     err_bind (py_assert (length locs \<ge> nlocs ds))
       (\<lambda>u. Inr (take (length locs - nlocs ds) locs))"

text \<open>
  The tail of \<open>path\<close>, after the prefix and the local locators are known: the arity
  assertion, the mapping, and the two assertions on the mapped path.
\<close>

definition path_tail :: "'l DataSeries \<Rightarrow> pth \<Rightarrow> 'l list \<Rightarrow> error + pth" where
  "path_tail ds pfx locs =
     err_bind (py_assert (length locs = nlocs ds)) (\<lambda>u.
     err_bind (path_is_relative (map_fn ds locs)) (\<lambda>rel.
     err_bind (py_assert rel) (\<lambda>u.
     err_bind (py_assert (path_has_depth (map_fn ds locs) (depth ds))) (\<lambda>u.
     Inr (os_path_join pfx (map_fn ds locs))))))"

fun DataSeries_path :: "'l DataSeries \<Rightarrow> 'l list \<Rightarrow> error + pth" where
  "DataSeries_path (DataSeries pfx m n d l None rm) locs =
     path_tail (DataSeries pfx m n d l None rm) pfx locs"
| "DataSeries_path (DataSeries pfx m n d l (Some r) rm) locs =
     err_bind (root_locators (DataSeries pfx m n d l (Some r) rm) locs) (\<lambda>root_locs.
     err_bind (self_locators (DataSeries pfx m n d l (Some r) rm) locs) (\<lambda>locs'.
     err_bind (DataSeries_path r root_locs) (\<lambda>pfx'.
     path_tail (DataSeries pfx m n d l (Some r) rm) pfx' locs')))"

definition DataSeries_exists :: "'l DataSeries \<Rightarrow> 'l list \<Rightarrow> 'c os_state \<Rightarrow> error + bool" where
  "DataSeries_exists ds locs s =
     err_bind (DataSeries_path ds locs) (\<lambda>p. Inr (os_path_isdir s p))"

definition DataSeries_remove ::
  "'l DataSeries \<Rightarrow> 'l list \<Rightarrow> 'c os_state \<Rightarrow> (error + unit) \<times> 'c os_state" where
  "DataSeries_remove ds locs s =
     (if DataSeries.removable ds then
        (case DataSeries_path ds locs of
           Inl e \<Rightarrow> (Inl e, s)
         | Inr p \<Rightarrow>
            (case DataSeries_exists ds locs s of
               Inl e \<Rightarrow> (Inl e, s)
             | Inr ex \<Rightarrow> if ex then shutil_rmtree p s else (Inr (), s)))
      else (Inl ValueError, s))"

text \<open>
  The part of \<open>create\<close> after the recursion into the root: make this level's directory
  if it is not there, and record the local locators in it.
\<close>

definition create_here ::
  "'l DataSeries \<Rightarrow> 'l list \<Rightarrow> string os_state \<Rightarrow> (error + unit) \<times> string os_state" where
  "create_here ds locs s =
     (case DataSeries_exists ds locs s of
        Inl e \<Rightarrow> (Inl e, s)
      | Inr ex \<Rightarrow>
         if ex then (Inr (), s)
         else (case DataSeries_path ds locs of
                 Inl e \<Rightarrow> (Inl e, s)
               | Inr p \<Rightarrow>
                  io_bind (os_makedirs p) (\<lambda>u.
                    case loc_dfile ds of
                      None \<Rightarrow> io_pure (Inr ())
                    | Some df \<Rightarrow>
                       io_bind (io_pure (self_locators ds locs)) (\<lambda>locs'.
                         DataFile_write df locs' p)) s))"

fun DataSeries_create ::
  "'l DataSeries \<Rightarrow> 'l list \<Rightarrow> string os_state \<Rightarrow> (error + unit) \<times> string os_state" where
  "DataSeries_create (DataSeries pfx m n d l None rm) locs s =
     create_here (DataSeries pfx m n d l None rm) locs s"
| "DataSeries_create (DataSeries pfx m n d l (Some r) rm) locs s =
     io_bind (io_pure (root_locators (DataSeries pfx m n d l (Some r) rm) locs)) (\<lambda>root_locs.
     io_bind (DataSeries_create r root_locs) (\<lambda>u.
     create_here (DataSeries pfx m n d l (Some r) rm) locs)) s"

subsection \<open>Enumeration of the existing locators\<close>

text \<open>
  \<open>_existing_paths\<close> joins the resolved prefix and \<open>depth\<close> stars into one pattern and hands
  it to \<open>glob.glob\<close>, so the segments of the prefix are pattern segments like the stars.

  \<open>fnmatch\<close> on one name: a star matches any run of characters, a question mark any one
  character, \<open>[seq]\<close> any character of the class and \<open>[!seq]\<close> any character outside it; a
  closing bracket that directly follows the opening bracket or the exclamation mark
  belongs to the class, \<open>x-y\<close> inside a class is the range from \<open>x\<close> to \<open>y\<close> (taken
  greedily from the left, empty when \<open>y\<close> is below \<open>x\<close>), and an opening bracket that is
  never closed stands for itself.
\<close>

definition has_magic :: "string \<Rightarrow> bool" where
  "has_magic nm = list_ex (\<lambda>c. c = CHR ''*'' \<or> c = CHR ''?'' \<or> c = CHR ''['') nm"

fun until_close :: "string \<Rightarrow> (string \<times> string) option" where
  "until_close [] = None"
| "until_close (c # cs) =
     (if c = CHR '']'' then Some ([], cs)
      else (case until_close cs of None \<Rightarrow> None | Some (b, r) \<Rightarrow> Some (c # b, r)))"

definition find_close :: "string \<Rightarrow> (bool \<times> string \<times> string) option" where
  "find_close ps =
     (let neg = (case ps of [] \<Rightarrow> False | c # r \<Rightarrow> c = CHR ''!'');
          ps1 = (if neg then tl ps else ps)
      in case ps1 of
           [] \<Rightarrow> None
         | c # r \<Rightarrow>
             if c = CHR '']''
             then (case until_close r of None \<Rightarrow> None | Some (b, rest) \<Rightarrow> Some (neg, c # b, rest))
             else (case until_close ps1 of None \<Rightarrow> None | Some (b, rest) \<Rightarrow> Some (neg, b, rest)))"

fun class_match :: "string \<Rightarrow> char \<Rightarrow> bool" where
  "class_match (x # m # y # rest) c =
     (if m = CHR ''-'' then (x \<le> c \<and> c \<le> y) \<or> class_match rest c
      else c = x \<or> class_match (m # y # rest) c)"
| "class_match (x # rest) c = (c = x \<or> class_match rest c)"
| "class_match [] c = False"

datatype tok = Star | AnyChar | CharClass bool string | Lit char

function fn_parse :: "string \<Rightarrow> tok list" where
  "fn_parse [] = []"
| "fn_parse (c # ps) =
     (if c = CHR ''*'' then Star # fn_parse ps
      else if c = CHR ''?'' then AnyChar # fn_parse ps
      else if c = CHR ''[''
      then (case find_close ps of
              None \<Rightarrow> Lit c # fn_parse ps
            | Some (neg, body, rest) \<Rightarrow> CharClass neg body # fn_parse rest)
      else Lit c # fn_parse ps)"
  by pat_completeness auto
termination
proof (relation "measure length")
  have shorter: "length r < length ps" if "until_close ps = Some (b, r)" for ps b r
    using that by (induction ps arbitrary: b r) (auto split: if_splits option.splits)
  have closed: "length r < Suc (length ps)" if "find_close ps = Some (neg, b, r)" for ps neg b r
    using that
    by (cases ps)
       (auto simp: find_close_def Let_def split: if_splits list.splits option.splits
             dest!: shorter)
  show "(rest, c # ps) \<in> measure length"
    if "find_close ps = Some x" and "(neg, y) = x" and "(body, rest) = y"
    for c ps x neg y body rest
    using that closed[of ps neg body rest] by auto
qed auto

fun tok_match :: "tok list \<Rightarrow> string \<Rightarrow> bool" where
  "tok_match [] nm = (nm = [])"
| "tok_match (Star # ts) [] = tok_match ts []"
| "tok_match (Star # ts) (c # cs) = (tok_match ts (c # cs) \<or> tok_match (Star # ts) cs)"
| "tok_match (AnyChar # ts) [] = False"
| "tok_match (AnyChar # ts) (c # cs) = tok_match ts cs"
| "tok_match (CharClass neg body # ts) [] = False"
| "tok_match (CharClass neg body # ts) (c # cs) = (class_match body c \<noteq> neg \<and> tok_match ts cs)"
| "tok_match (Lit x # ts) [] = False"
| "tok_match (Lit x # ts) (c # cs) = (c = x \<and> tok_match ts cs)"

definition fnmatch :: "string \<Rightarrow> string \<Rightarrow> bool" where
  "fnmatch nm pat = tok_match (fn_parse pat) nm"

text \<open>
  \<open>glob.glob\<close> on a pattern, given by its segments in reverse: a pattern without pattern
  characters matches itself when it exists. Otherwise the directory part is expanded first
  (to directories only) when it has pattern characters and taken as it stands when it has
  none, and in each of these directories the last segment selects, when it has pattern
  characters, the entries that \<open>fnmatch\<close> accepts, among which a name that begins with a
  dot is kept only by a segment that begins with a dot, and else the entry of that name
  when it exists.
\<close>

definition hidden :: "string \<Rightarrow> bool" where
  "hidden nm = (case nm of [] \<Rightarrow> False | c # cs \<Rightarrow> c = CHR ''.'')"

definition os_listdir :: "'c os_state \<Rightarrow> string list \<Rightarrow> string list" where
  "os_listdir s q =
     remdups (map last (filter (\<lambda>k. k \<noteq> [] \<and> butlast k = q) (map fst (nodes s))))"

definition glob1 :: "'c os_state \<Rightarrow> string list \<Rightarrow> string \<Rightarrow> bool \<Rightarrow> string list" where
  "glob1 s dir pat dironly =
     (case lookup_segs s dir of
        Some Dir \<Rightarrow>
          filter (\<lambda>nm. fnmatch nm pat)
            (filter (\<lambda>nm. hidden pat \<or> \<not> hidden nm)
               (filter (\<lambda>nm. \<not> dironly \<or> lookup_segs s (dir @ [nm]) = Some Dir)
                  (os_listdir s dir)))
      | _ \<Rightarrow> [])"

definition glob0 :: "'c os_state \<Rightarrow> string list \<Rightarrow> string \<Rightarrow> string list" where
  "glob0 s dir basename =
     (case lookup_segs s (dir @ [basename]) of None \<Rightarrow> [] | Some n \<Rightarrow> [basename])"

fun iglob :: "'c os_state \<Rightarrow> bool \<Rightarrow> string list \<Rightarrow> bool \<Rightarrow> string list list" where
  "iglob s a [] dironly = (if a then [[]] else [])"
| "iglob s a (b # ds) dironly =
     (if \<not> list_ex has_magic (b # ds) then
        (case lookup_segs s (abs_segs s (Pth a (rev (b # ds)))) of
           None \<Rightarrow> []
         | Some n \<Rightarrow> [rev (b # ds)])
      else
        concat (map (\<lambda>dir. map (\<lambda>nm. dir @ [nm])
                              (if has_magic b then glob1 s (abs_segs s (Pth a dir)) b dironly
                               else glob0 s (abs_segs s (Pth a dir)) b))
                    (if list_ex has_magic ds then iglob s a ds True else [rev ds])))"

definition glob_glob :: "'c os_state \<Rightarrow> pth \<Rightarrow> pth list" where
  "glob_glob s pat = map (Pth (is_abs pat)) (iglob s (is_abs pat) (rev (segs pat)) False)"

definition existing_paths :: "'l DataSeries \<Rightarrow> 'l list \<Rightarrow> 'c os_state \<Rightarrow> error + pth list" where
  "existing_paths ds root_locs s =
     err_bind (case root ds of None \<Rightarrow> Inr (prefix ds) | Some r \<Rightarrow> DataSeries_path r root_locs)
       (\<lambda>pfx. Inr (sort_key path_str
                 (map (os_path_join pfx)
                    (filter (os_path_isdir s)
                       (glob_glob s (foldl os_path_join pfx
                                       (replicate (depth ds) (Pth False [''*'']))))))))"

fun err_all :: "(error + 'a) list \<Rightarrow> error + 'a list" where
  "err_all [] = Inr []"
| "err_all (r # rs) =
     (case r of Inl e \<Rightarrow> Inl e
      | Inr x \<Rightarrow> (case err_all rs of Inl e \<Rightarrow> Inl e | Inr xs \<Rightarrow> Inr (x # xs)))"

text \<open>
  \<open>existing\<close> calls itself on every locator the root returns; nothing bounds that
  recursion when a recorded locator is shorter than the root's arity, so the model carries
  fuel, and running out of it is Python's \<open>RecursionError\<close>.
\<close>

fun DataSeries_existing ::
  "nat \<Rightarrow> 'l DataSeries \<Rightarrow> 'l list \<Rightarrow> bool \<Rightarrow> string os_state \<Rightarrow> error + 'l list list" where
  "DataSeries_existing 0 ds root_locs relative s = Inl RecursionError"
| "DataSeries_existing (Suc fuel) ds root_locs relative s =
     (if nlocs ds = 0 then
        err_bind (DataSeries_exists ds [] s) (\<lambda>ex. Inr (if ex then [[]] else []))
      else
        (case loc_dfile ds of
           None \<Rightarrow> Inl ValueError
         | Some df \<Rightarrow>
            if length root_locs < root_locator_count ds then
              (case root ds of
                 None \<Rightarrow> Inl AttributeError
               | Some r \<Rightarrow>
                  err_bind (DataSeries_existing fuel r root_locs False s) (\<lambda>roots.
                  err_bind (err_all (map (\<lambda>rl. DataSeries_existing fuel ds rl False s) roots))
                    (\<lambda>lsts. Inr (concat lsts))))
            else
              err_bind (py_assert (root_locator_count ds = length root_locs)) (\<lambda>u.
              err_bind (existing_paths ds root_locs s) (\<lambda>pths.
              err_bind (err_all (map (\<lambda>p. DataFile_read df p s)
                                     (filter (\<lambda>p. DataFile_exists df p s) pths)))
                (\<lambda>locs_lst.
                   Inr (if \<not> relative then map ((@) root_locs) locs_lst else locs_lst))))))"

subsection \<open>The document file of a DataSeries\<close>

text \<open>
  A document is a nested mapping with serialized values at its leaves. Mappings keep
  their insertion order, as Python dictionaries do.
\<close>

datatype 'v json = JVal 'v | JObj "(string \<times> 'v json) list"

text \<open>
  Modelled from the spec: \<open>autofile.json_.read_json\<close> and \<open>autofile.json_.write_json\<close> are
  not among the sources. A document file holds one parsed document; reading one that does
  not exist is a missing-resource failure, and writing replaces the whole file. Each call
  advances its counter.
\<close>

definition read_json :: "pth \<Rightarrow> 'v json os_state \<Rightarrow> (error + 'v json) \<times> 'v json os_state" where
  "read_json p s = (io_read_file p s, s\<lparr>doc_reads := Suc (doc_reads s)\<rparr>)"


definition truthy :: "string option \<Rightarrow> bool" where
  "truthy x = (case x of None \<Rightarrow> False | Some l \<Rightarrow> l \<noteq> [])"

definition remove_layer_from_path :: "pth \<Rightarrow> string option \<Rightarrow> pth" where
  "remove_layer_from_path p json_layer =
     (if Some (snd (os_path_split p)) = json_layer then fst (os_path_split p) else p)"

definition json_path :: "'l DataSeries \<Rightarrow> string option \<Rightarrow> error + pth" where
  "json_path ds json_layer =
     err_bind (case root ds of None \<Rightarrow> Inr (prefix ds) | Some r \<Rightarrow> DataSeries_path r [])
       (\<lambda>pfx. Inr (os_path_join
                 (if truthy json_layer then remove_layer_from_path pfx json_layer else pfx)
                 (Pth False [''db.json''])))"

definition json_exists :: "'l DataSeries \<Rightarrow> string option \<Rightarrow> 'c os_state \<Rightarrow> error + bool" where
  "json_exists ds json_layer s =
     err_bind (json_path ds json_layer) (\<lambda>p. Inr (os_path_isfile s p))"

text \<open>
  \<open>json_existing\<close> assigns the empty list to its parameter \<open>locs\<close> before anything else,
  walks the document along that (now empty) list, collects the keys whose values are
  mappings into \<open>locs\<close>, and then assigns to \<open>locs\<close> once more: every key of the mapping it
  stands at, each as a one-element list.
\<close>

fun existing_walk ::
  "string list \<Rightarrow> (string \<times> 'v json) list \<Rightarrow> error + (string \<times> 'v json) list" where
  "existing_walk [] dct = Inr dct"
| "existing_walk (nested_key # ks) dct =
     (case map_of dct nested_key of
        None \<Rightarrow> existing_walk ks []
      | Some (JObj d) \<Rightarrow> existing_walk ks d
      | Some (JVal v) \<Rightarrow> Inl AttributeError)"

definition json_existing ::
  "'l DataSeries \<Rightarrow> string list \<Rightarrow> string option \<Rightarrow> 'v json os_state
     \<Rightarrow> (error + string list list) \<times> 'v json os_state" where
  "json_existing ds locs0 json_layer s =
     (let locs = ([] :: string list) in
      case json_exists ds json_layer s of
        Inl e \<Rightarrow> (Inl e, s)
      | Inr ex \<Rightarrow>
         if ex then
           io_bind (io_pure (json_path ds json_layer)) (\<lambda>p.
           io_bind (read_json p) (\<lambda>json_data.
             io_pure (case json_data of
                JVal v \<Rightarrow> Inl AttributeError
              | JObj d0 \<Rightarrow>
                 err_bind (existing_walk locs d0) (\<lambda>dct.
                   let keys = map fst dct;
                       locs1 = filter (\<lambda>key. case map_of dct key of
                                                 Some (JObj d) \<Rightarrow> True | _ \<Rightarrow> False) keys;
                       locs2 = map (\<lambda>key. [key]) keys
                   in Inr locs2)))) s
         else (Inr [], s))"

definition map_locs :: "string DataSeries \<Rightarrow> string list \<Rightarrow> string list" where
  "map_locs ds locs = (if locs \<noteq> [] then [path_str (map_fn ds locs)] else locs)"


section \<open>DataSeriesFile\<close>

datatype ('l, 'a) DataSeriesFile =
  DataSeriesFile (dir: "'l DataSeries") (dfile: "'a DataFile") (removable: bool)

definition DataSeriesFile_init :: "'l DataSeries \<Rightarrow> 'a DataFile \<Rightarrow> ('l, 'a) DataSeriesFile" where
  "DataSeriesFile_init ds df = DataSeriesFile ds df False"

definition DataSeriesFile_path :: "('l, 'a) DataSeriesFile \<Rightarrow> 'l list \<Rightarrow> error + pth" where
  "DataSeriesFile_path dsf locs =
     err_bind (DataSeries_path (dir dsf) locs) (\<lambda>p. Inr (DataFile_path (dfile dsf) p))"

definition DataSeriesFile_remove ::
  "('l, 'a) DataSeriesFile \<Rightarrow> 'l list \<Rightarrow> string os_state \<Rightarrow> (error + unit) \<times> string os_state" where
  "DataSeriesFile_remove dsf locs s =
     (if DataSeriesFile.removable dsf then
        (case DataSeriesFile_path dsf locs of
           Inl e \<Rightarrow> (Inl e, s)
         | Inr p \<Rightarrow> os_remove p s)
      else (Inl ValueError, s))"

section \<open>JSONObject\<close>

text \<open>
  A named field of the document, with its layer qualifier: \<open>json_prefix\<close> and
  \<open>json_layer\<close> are the two components of the constructor's \<open>json_prefix\<close> pair, both
  \<open>None\<close> by default. The writer turns a value into a serialized leaf, the reader turns
  a stored entry back into a value.
\<close>

datatype ('a, 'v) JSONObject =
  JSONObject (name: string) (json_prefix: "string list option") (json_layer: "string option")
    (removable: bool) (writer: "'a \<Rightarrow> 'v json") (reader: "'v json \<Rightarrow> 'a")

definition JSONObject_init ::
  "string \<Rightarrow> string list option \<times> string option \<Rightarrow> ('a \<Rightarrow> 'v json) \<Rightarrow> ('v json \<Rightarrow> 'a)
     \<Rightarrow> ('a, 'v) JSONObject" where
  "JSONObject_init nm jp writer_fn reader_fn =
     JSONObject nm (fst jp) (snd jp) False writer_fn reader_fn"

definition add_layer :: "('a, 'v) JSONObject \<Rightarrow> string list \<Rightarrow> error + string list" where
  "add_layer jo key =
     (if truthy (json_layer jo) then
        (case json_prefix jo of
           None \<Rightarrow> Inl AttributeError
         | Some pfx \<Rightarrow> Inr (pfx @ [the (json_layer jo)] @ key))
      else Inr key)"

text \<open>
  The navigation loop of \<open>exists\<close> and \<open>_read\<close>: an absent segment clears the flag and the
  loop goes on with the next segment at the same mapping; stepping onto a value that is
  not a mapping fails at \<open>dct.keys()\<close>.
\<close>

fun read_walk ::
  "string list \<Rightarrow> (string \<times> 'v json) list \<Rightarrow> bool \<Rightarrow> error + bool \<times> (string \<times> 'v json) list" where
  "read_walk [] dct ex = Inr (ex, dct)"
| "read_walk (nested_key # ks) dct ex =
     (case map_of dct nested_key of
        None \<Rightarrow> read_walk ks dct False
      | Some (JObj d) \<Rightarrow> read_walk ks d ex
      | Some (JVal v) \<Rightarrow> Inl AttributeError)"

definition JSONObject_exists ::
  "('a, 'v) JSONObject \<Rightarrow> string list \<Rightarrow> pth \<Rightarrow> 'v json os_state
     \<Rightarrow> (error + bool) \<times> 'v json os_state" where
  "JSONObject_exists jo key p =
     io_bind (io_pure (add_layer jo key)) (\<lambda>key'.
     io_bind (read_json p) (\<lambda>json_data.
       io_pure (case json_data of
          JVal v \<Rightarrow> Inl AttributeError
        | JObj d0 \<Rightarrow>
           err_bind (read_walk key' d0 True) (\<lambda>(ex, dct).
             Inr (if ex then map_of dct (JSONObject.name jo) \<noteq> None else False)))))"

definition JSONObject_private_read ::
  "('a, 'v) JSONObject \<Rightarrow> string list \<Rightarrow> 'v json \<Rightarrow> error + 'a option" where
  "JSONObject_private_read jo key json_data =
     err_bind (add_layer jo key) (\<lambda>key'.
       case json_data of
         JVal v \<Rightarrow> Inl AttributeError
       | JObj d0 \<Rightarrow>
          err_bind (read_walk key' d0 True) (\<lambda>(ex, dct).
            Inr (if ex then map_option (JSONObject.reader jo) (map_of dct (JSONObject.name jo))
                 else None)))"

definition JSONObject_read ::
  "('a, 'v) JSONObject \<Rightarrow> string list \<Rightarrow> pth \<Rightarrow> 'v json os_state
     \<Rightarrow> (error + 'a option) \<times> 'v json os_state" where
  "JSONObject_read jo key p =
     io_bind (read_json p) (\<lambda>json_data. io_pure (JSONObject_private_read jo key json_data))"







section \<open>JSONEntry\<close>

text \<open>
  A JSONObject bound to the document file of a DataSeries. With \<open>mapping\<close> the key is a
  locator and is replaced by the one-segment key that \<open>_map\<close> makes of it; without, the key
  is used as it is. Locators are strings here, so that both kinds of key have one type.
\<close>

datatype ('a, 'v) JSONEntry =
  JSONEntry (js: "string DataSeries") (json: "('a, 'v) JSONObject") (removable: bool)

definition JSONEntry_init :: "string DataSeries \<Rightarrow> ('a, 'v) JSONObject \<Rightarrow> ('a, 'v) JSONEntry" where
  "JSONEntry_init ds jobject = JSONEntry ds jobject False"

definition entry_key :: "('a, 'v) JSONEntry \<Rightarrow> string list \<Rightarrow> bool \<Rightarrow> string list" where
  "entry_key e key mapping = (if mapping then map_locs (js e) key else key)"

definition entry_path :: "('a, 'v) JSONEntry \<Rightarrow> error + pth" where
  "entry_path e = json_path (js e) (json_layer (json e))"

definition JSONEntry_exists ::
  "('a, 'v) JSONEntry \<Rightarrow> string list \<Rightarrow> bool \<Rightarrow> 'v json os_state
     \<Rightarrow> (error + bool) \<times> 'v json os_state" where
  "JSONEntry_exists e key mapping =
     io_bind (io_pure (entry_path e)) (\<lambda>p.
     JSONObject_exists (json e) (entry_key e key mapping) p)"

definition JSONEntry_existing ::
  "('a, 'v) JSONEntry \<Rightarrow> string list \<Rightarrow> 'v json os_state
     \<Rightarrow> (error + string list list) \<times> 'v json os_state" where
  "JSONEntry_existing e key =
     io_bind (io_pure (add_layer (json e) key)) (\<lambda>locs.
     json_existing (js e) locs (json_layer (json e)))"




definition JSONEntry_read ::
  "('a, 'v) JSONEntry \<Rightarrow> string list \<Rightarrow> bool \<Rightarrow> 'v json os_state
     \<Rightarrow> (error + 'a option) \<times> 'v json os_state" where
  "JSONEntry_read e key mapping =
     io_bind (JSONEntry_exists e key mapping) (\<lambda>ex.
       if ex then
         io_bind (io_pure (entry_path e)) (\<lambda>p.
         JSONObject_read (json e) (entry_key e key mapping) p)
       else io_pure (Inr None))"



section \<open>Notions used in the statements\<close>

text \<open>
  The mapped path of this level's locators (the last \<open>nlocs\<close> of the locator) fails one
  of the two assertions of \<open>path\<close>: it is not relative, or it has not the declared depth.
\<close>

definition bad_shape :: "'l DataSeries \<Rightarrow> 'l list \<Rightarrow> bool" where
  "bad_shape ds locs =
     (path_is_relative (map_fn ds (drop (length locs - nlocs ds) locs)) \<noteq> Inr True
      \<or> \<not> path_has_depth (map_fn ds (drop (length locs - nlocs ds) locs)) (depth ds))"

text \<open>
  What the prose specification says \<open>existing(prefix_key)\<close> lists: walk the document down
  the prefix key, and return the keys at that place whose values are mappings. This
  definition follows the specification, not the code.
\<close>

fun spec_existing :: "string list \<Rightarrow> (string \<times> 'v json) list \<Rightarrow> string list" where
  "spec_existing [] dct =
     map fst (filter (\<lambda>kv. case snd kv of JObj d \<Rightarrow> True | JVal v \<Rightarrow> False) dct)"
| "spec_existing (k # ks) dct =
     (case map_of dct k of Some (JObj d) \<Rightarrow> spec_existing ks d | _ \<Rightarrow> [])"

text \<open>
  A filesystem state is well formed when every entry lies in a directory, and the text of
  a file is what \<open>read_file\<close> returns for it.
\<close>

definition wf_fs :: "'c os_state \<Rightarrow> bool" where
  "wf_fs s = list_all (\<lambda>k. lookup_segs s (butlast k) = Some Dir) (map fst (nodes s))"

definition file_text :: "string os_state \<Rightarrow> pth \<Rightarrow> string" where
  "file_text s p = (case io_read_file p s of Inr c \<Rightarrow> c | Inl e \<Rightarrow> [])"




section \<open>Example configurations\<close>

text \<open>
  Concrete series and states on which the theorems below are instantiated: a filesystem
  that holds the directory \<open>/P\<close>, a locator file that stores a one-element locator as its
  text, a removable series of arity 1 and depth 1 whose mapping takes the locator value as
  the directory name, the states after creating the locator \<open>a\<close>, the locators \<open>b\<close>,
  \<open>a\<close>, \<open>c\<close> and the locator \<open>.h\<close> in it, a series whose
  prefix is that locator's directory, a series with a locator file whose root is the first
  series and the state after creating the locators \<open>[a], x\<close> and \<open>a, z\<close> in it, a data file whose removability flag was set after
  construction, a root of arity 2 with a child of arity 1, and a child whose mapping yields
  two segments although its depth is 1.
\<close>

definition fs0 :: "string os_state" where
  "fs0 = \<lparr>cwd = [], nodes = [([''P''], Dir)], doc_reads = 0, doc_writes = 0\<rparr>"

definition loc_file :: "string list DataFile" where
  "loc_file = DataFile_init ''locs.txt'' join_segs (\<lambda>txt. [txt])"

definition series_a :: "string DataSeries" where
  "series_a = DataSeries (Pth True [''P'']) (\<lambda>locs. Pth False locs) 1 1 (Some loc_file) None True"

definition fs_a :: "string os_state" where
  "fs_a = fs0\<lparr>nodes := [([''P''], Dir), ([''P'', ''a''], Dir),
                         ([''P'', ''a'', ''locs.txt''], File ''a'')]\<rparr>"

definition series_sub :: "string DataSeries" where
  "series_sub = DataSeries (Pth True [''P'', ''a'']) (\<lambda>locs. Pth False locs) 1 1 None None False"

definition fs_abc :: "string os_state" where
  "fs_abc = fs0\<lparr>nodes := [([''P''], Dir),
       ([''P'', ''b''], Dir), ([''P'', ''b'', ''locs.txt''], File ''b''),
       ([''P'', ''a''], Dir), ([''P'', ''a'', ''locs.txt''], File ''a''),
       ([''P'', ''c''], Dir), ([''P'', ''c'', ''locs.txt''], File ''c'')]\<rparr>"

definition fs_hidden :: "string os_state" where
  "fs_hidden = fs0\<lparr>nodes := [([''P''], Dir),
       ([''P'', ''.h''], Dir), ([''P'', ''.h'', ''locs.txt''], File ''.h'')]\<rparr>"

definition series_child :: "string DataSeries" where
  "series_child =
     DataSeries (Pth True [''P'']) (\<lambda>locs. Pth False locs) 1 1 (Some loc_file) (Some series_a) False"

definition fs_bracket :: "string os_state" where
  "fs_bracket = fs0\<lparr>nodes := [([''P''], Dir),
       ([''P'', ''[a]''], Dir), ([''P'', ''[a]'', ''locs.txt''], File ''[a]''),
       ([''P'', ''[a]'', ''x''], Dir), ([''P'', ''[a]'', ''x'', ''locs.txt''], File ''x''),
       ([''P'', ''a''], Dir), ([''P'', ''a'', ''locs.txt''], File ''a''),
       ([''P'', ''a'', ''z''], Dir), ([''P'', ''a'', ''z'', ''locs.txt''], File ''z'')]\<rparr>"

definition removable_file :: "string DataFile" where
  "removable_file = DataFile ''data.txt'' id id True"

definition example_root :: "string DataSeries" where
  "example_root = DataSeries (Pth True [''P'']) (\<lambda>locs. Pth False locs) 2 2 None None False"

definition example_child :: "string DataSeries" where
  "example_child =
     DataSeries (Pth True [''P'']) (\<lambda>locs. Pth False locs) 1 1 None (Some example_root) False"

definition series_top :: "string DataSeries" where
  "series_top = DataSeries (Pth True [''P'']) (\<lambda>locs. Pth False locs) 1 1 None None False"

definition bad_child :: "string DataSeries" where
  "bad_child =
     DataSeries (Pth True [''P'']) (\<lambda>locs. Pth False (''x'' # locs)) 1 1 None (Some series_top) False"

text \<open>
  For the document layer: a field \<open>energy\<close> without layer whose serialized values are
  strings, bound to the series on \<open>/P\<close>; a state without document file, and states whose
  document file \<open>/P/db.json\<close> holds a given document.
\<close>

definition energy :: "(string, string) JSONObject" where
  "energy = JSONObject_init ''energy'' (None, None) JVal (\<lambda>j. case j of JVal v \<Rightarrow> v | JObj d \<Rightarrow> [])"

definition entry_energy :: "(string, string) JSONEntry" where
  "entry_energy = JSONEntry_init series_a energy"

definition js0 :: "string json os_state" where
  "js0 = \<lparr>cwd = [], nodes = [([''P''], Dir)], doc_reads = 0, doc_writes = 0\<rparr>"

definition js_doc :: "string json \<Rightarrow> string json os_state" where
  "js_doc d = js0\<lparr>nodes := [([''P''], Dir), ([''P'', ''db.json''], File d)]\<rparr>"

definition nested_doc :: "(string \<times> string json) list" where
  "nested_doc = [(''a'', JObj [(''b'', JObj [])]), (''x'', JVal ''1'')]"

definition leaf_doc :: "(string \<times> string json) list" where
  "leaf_doc = [(''b'', JVal ''1'')]"


section \<open>Removability of freshly constructed files\<close>

text \<open>
  C9. A DataFile and a DataSeriesFile leave their constructors with the removability flag
  unset, and the constructors take no argument for it; so \<open>remove\<close> on a freshly constructed
  object raises the not-removable error (\<open>ValueError\<close>) for every directory or locator, and
  the filesystem is as before.
\<close>

theorem fresh_files_not_removable:
  "\<not> DataFile.removable (DataFile_init nm w r)
   \<and> \<not> DataSeriesFile.removable (DataSeriesFile_init ds df)
   \<and> DataFile_remove (DataFile_init nm w r) dir_pth s = (Inl ValueError, s)
   \<and> DataSeriesFile_remove (DataSeriesFile_init ds df) locs s = (Inl ValueError, s)"
  by (simp add: DataFile_init_def DataSeriesFile_init_def DataFile_remove_def
      DataSeriesFile_remove_def)

section \<open>Paths of a chained series\<close>

lemma path_tail_Inr:
  "path_tail ds pfx locs = Inr p \<longleftrightarrow>
     (length locs = nlocs ds \<and> path_is_relative (map_fn ds locs) = Inr True
      \<and> path_has_depth (map_fn ds locs) (depth ds) \<and> p = os_path_join pfx (map_fn ds locs))"
  by (auto simp: path_tail_def err_bind_def py_assert_def split: sum.splits if_splits)

lemma DataSeries_path_length:
  "DataSeries_path ds locs = Inr p \<Longrightarrow> length locs = root_locator_count ds + nlocs ds"
proof (induction ds locs arbitrary: p rule: DataSeries_path.induct)
  case (1 pfx m n d l rm locs)
  then show ?case by (simp add: path_tail_Inr)
next
  case (2 pfx m n d l r rm locs)
  from "2.prems" obtain p0 where
    len: "n \<le> length locs" and p0: "DataSeries_path r (take (length locs - n) locs) = Inr p0"
    by (auto simp: err_bind_def root_locators_def self_locators_def py_assert_def
        split: sum.splits if_splits)
  from "2.IH"[OF p0] have "length locs - n = root_locator_count r + nlocs r"
    using len by simp
  with len show ?case by simp
qed

lemma DataSeries_path_chained_unfold:
  assumes "root ds = Some r"
  shows "DataSeries_path ds locs =
      (if nlocs ds \<le> length locs
       then err_bind (DataSeries_path r (take (length locs - nlocs ds) locs))
              (\<lambda>p0. path_tail ds p0 (drop (length locs - nlocs ds) locs))
       else Inl AssertionError)"
  using assms
  by (cases ds) (simp add: err_bind_def root_locators_def self_locators_def py_assert_def)

lemma split_all_eval:
  "os_path_split_all (Pth False [x]) acc = x # acc"
  "os_path_split_all (Pth False [x, y]) acc = x # y # acc"
  by (simp_all add: os_path_split_all.simps os_path_split_def path_str_def)

text \<open>
  C6. For a series chained under a root, \<open>path\<close> succeeds exactly when the locator has
  the length of the root chain's cumulative arity plus this level's arity, the root
  resolves the leading part (of the cumulative arity's length), and this level's mapping
  of the trailing part is relative and of the declared depth; the result is the root's
  path joined with the mapped path.
\<close>

theorem path_chained:
  assumes "root ds = Some r"
  shows "DataSeries_path ds locs = Inr p \<longleftrightarrow>
     (length locs = root_locator_count ds + nlocs ds \<and>
      (\<exists>p0. DataSeries_path r (take (root_locator_count ds) locs) = Inr p0 \<and>
            path_is_relative (map_fn ds (drop (root_locator_count ds) locs)) = Inr True \<and>
            path_has_depth (map_fn ds (drop (root_locator_count ds) locs)) (depth ds) \<and>
            p = os_path_join p0 (map_fn ds (drop (root_locator_count ds) locs))))"
proof
  assume A: "DataSeries_path ds locs = Inr p"
  have len: "length locs = root_locator_count ds + nlocs ds"
    by (rule DataSeries_path_length[OF A])
  then have k: "length locs - nlocs ds = root_locator_count ds" and nle: "nlocs ds \<le> length locs"
    by simp_all
  from A obtain p0 where
    p0: "DataSeries_path r (take (root_locator_count ds) locs) = Inr p0" and
    tl: "path_tail ds p0 (drop (root_locator_count ds) locs) = Inr p"
    unfolding DataSeries_path_chained_unfold[OF assms] k using nle
    by (auto simp: err_bind_def split: sum.splits)
  from tl p0 len show "length locs = root_locator_count ds + nlocs ds \<and>
      (\<exists>p0. DataSeries_path r (take (root_locator_count ds) locs) = Inr p0 \<and>
            path_is_relative (map_fn ds (drop (root_locator_count ds) locs)) = Inr True \<and>
            path_has_depth (map_fn ds (drop (root_locator_count ds) locs)) (depth ds) \<and>
            p = os_path_join p0 (map_fn ds (drop (root_locator_count ds) locs)))"
    by (auto simp: path_tail_Inr)
next
  assume B: "length locs = root_locator_count ds + nlocs ds \<and>
      (\<exists>p0. DataSeries_path r (take (root_locator_count ds) locs) = Inr p0 \<and>
            path_is_relative (map_fn ds (drop (root_locator_count ds) locs)) = Inr True \<and>
            path_has_depth (map_fn ds (drop (root_locator_count ds) locs)) (depth ds) \<and>
            p = os_path_join p0 (map_fn ds (drop (root_locator_count ds) locs)))"
  then have len: "length locs = root_locator_count ds + nlocs ds" by simp
  then have k: "length locs - nlocs ds = root_locator_count ds" and nle: "nlocs ds \<le> length locs"
    by simp_all
  have "length (drop (root_locator_count ds) locs) = nlocs ds"
    using len by simp
  with B have "\<exists>p0. DataSeries_path r (take (root_locator_count ds) locs) = Inr p0 \<and>
        path_tail ds p0 (drop (root_locator_count ds) locs) = Inr p"
    by (auto simp: path_tail_Inr)
  then show "DataSeries_path ds locs = Inr p"
    unfolding DataSeries_path_chained_unfold[OF assms] k using nle
    by (auto simp: err_bind_def)
qed

theorem path_chained_witness:
  "root example_child = Some example_root
   \<and> DataSeries_path example_root [''a'', ''b''] = Inr (Pth True [''P'', ''a'', ''b''])
   \<and> DataSeries_path example_child [''a'', ''b'', ''c'']
       = Inr (os_path_join (Pth True [''P'', ''a'', ''b'']) (map_fn example_child [''c'']))"
proof -
  have r: "root example_child = Some example_root"
    by (simp add: example_child_def)
  have p0: "DataSeries_path example_root [''a'', ''b''] = Inr (Pth True [''P'', ''a'', ''b''])"
    by (simp add: example_root_def path_tail_def err_bind_def py_assert_def
        path_is_relative_def path_has_depth_def os_path_join_def split_all_eval)
  have c: "root_locator_count example_child = 2" "nlocs example_child = 1"
    "depth example_child = 1" "map_fn example_child = (\<lambda>locs. Pth False locs)"
    by (simp_all add: example_child_def example_root_def)
  show ?thesis
    using r p0 path_chained [OF r, of "[''a'', ''b'', ''c'']"
        "os_path_join (Pth True [''P'', ''a'', ''b'']) (map_fn example_child [''c''])"]
    by (simp add: c path_is_relative_def path_has_depth_def split_all_eval)
qed

section \<open>Creation with a mapping that breaks the path assertions\<close>

lemma bad_shape_path:
  assumes "bad_shape ds locs"
  shows "\<exists>e. DataSeries_path ds locs = Inl e"
proof (rule ccontr)
  assume "\<not> (\<exists>e. DataSeries_path ds locs = Inl e)"
  then obtain p where A: "DataSeries_path ds locs = Inr p"
    by (cases "DataSeries_path ds locs") auto
  show False
  proof (cases "root ds")
    case None
    then have "DataSeries_path ds locs = path_tail ds (prefix ds) locs"
      by (cases ds) simp
    with A have "path_tail ds (prefix ds) locs = Inr p" by simp
    with assms show False by (auto simp: path_tail_Inr bad_shape_def)
  next
    case (Some r)
    from A have nle: "nlocs ds \<le> length locs"
      unfolding DataSeries_path_chained_unfold[OF Some] by (auto split: if_splits)
    with A obtain p0 where "path_tail ds p0 (drop (length locs - nlocs ds) locs) = Inr p"
      unfolding DataSeries_path_chained_unfold[OF Some]
      by (auto simp: err_bind_def split: sum.splits)
    with assms show False by (auto simp: path_tail_Inr bad_shape_def)
  qed
qed

lemma create_here_path_fails:
  assumes "DataSeries_path ds locs = Inl e"
  shows "create_here ds locs s = (Inl e, s)"
  using assms by (simp add: create_here_def DataSeries_exists_def err_bind_def)

lemma DataSeries_create_root_None:
  "root ds = None \<Longrightarrow> DataSeries_create ds locs s = create_here ds locs s"
  by (cases ds) simp

lemma DataSeries_create_root_Some:
  "root ds = Some r \<Longrightarrow> DataSeries_create ds locs s =
     (if nlocs ds \<le> length locs then
        (case DataSeries_create r (take (length locs - nlocs ds) locs) s of
           (Inl e, s1) \<Rightarrow> (Inl e, s1)
         | (Inr u, s1) \<Rightarrow> create_here ds locs s1)
      else (Inl AssertionError, s))"
  by (cases ds)
     (simp add: io_bind_def io_pure_def root_locators_def err_bind_def py_assert_def
        split: sum.splits prod.splits)

text \<open>
  C3 (amended). When this level's mapped path is not relative or has not the declared
  depth, \<open>create\<close> fails and makes no directory at this level: the state it leaves is the
  state before the call for a series without root, and for a chained series the state left
  by the root's \<open>create\<close> on the leading locators, which runs before the path is checked.
\<close>

theorem create_bad_shape:
  assumes "bad_shape ds locs"
  shows "(\<exists>e. fst (DataSeries_create ds locs s) = Inl e)
     \<and> snd (DataSeries_create ds locs s) =
        (case root ds of
           None \<Rightarrow> s
         | Some r \<Rightarrow>
            if nlocs ds \<le> length locs
            then snd (DataSeries_create r (take (length locs - nlocs ds) locs) s)
            else s)"
proof -
  from bad_shape_path[OF assms] obtain e where e: "DataSeries_path ds locs = Inl e" by blast
  show ?thesis
  proof (cases "root ds")
    case None
    then show ?thesis
      by (simp add: DataSeries_create_root_None create_here_path_fails[OF e])
  next
    case (Some r)
    show ?thesis
      by (auto simp: Some DataSeries_create_root_Some[OF Some] create_here_path_fails[OF e]
          split: prod.splits sum.splits)
  qed
qed

lemma eval_create_top_a:
  "DataSeries_create series_top [''a''] fs0 =
     (Inr (), fs0\<lparr>nodes := [([''P''], Dir), ([''P'', ''a''], Dir)]\<rparr>)"
  by code_simp

lemma bad_child_facts:
  "root bad_child = Some series_top" "nlocs bad_child = 1" "depth bad_child = 1"
  "map_fn bad_child = (\<lambda>locs. Pth False (''x'' # locs))"
  by (simp_all add: bad_child_def)

lemma bad_child_bad: "bad_shape bad_child [''a'', ''b'']"
  by code_simp

theorem create_bad_shape_witness:
  "bad_shape bad_child [''a'', ''b'']
   \<and> (\<exists>e. fst (DataSeries_create bad_child [''a'', ''b''] fs0) = Inl e)
   \<and> snd (DataSeries_create bad_child [''a'', ''b''] fs0)
       = fs0\<lparr>nodes := [([''P''], Dir), ([''P'', ''a''], Dir)]\<rparr>"
  using create_bad_shape[OF bad_child_bad, of fs0] bad_child_bad
  by (simp add: bad_child_facts eval_create_top_a)

theorem create_chained_touches_filesystem:
  "bad_shape bad_child [''a'', ''b'']
   \<and> \<not> os_path_isdir fs0 (Pth True [''P'', ''a''])
   \<and> fst (DataSeries_create bad_child [''a'', ''b''] fs0) = Inl AssertionError
   \<and> os_path_isdir (snd (DataSeries_create bad_child [''a'', ''b''] fs0)) (Pth True [''P'', ''a''])
   \<and> snd (DataSeries_create bad_child [''a'', ''b''] fs0) \<noteq> fs0"
  by code_simp

section \<open>Removal\<close>

text \<open>
  C7 (amended). \<open>remove\<close> of a series or of a data file whose removability flag is unset
  raises the not-removable error (\<open>ValueError\<close>) and leaves the filesystem as it was. With
  the flag set, removing a data file that does not exist fails with the missing-file
  error (\<open>FileNotFoundError\<close>, or \<open>NotADirectoryError\<close> when a regular file lies on the way
  to it) and leaves the filesystem as it was; removing a series directory that does not
  exist succeeds and changes nothing, because \<open>DataSeries.remove\<close> deletes only when
  \<open>exists\<close> holds.
\<close>

theorem remove_behaviour:
  "(\<not> DataSeries.removable ds \<longrightarrow> DataSeries_remove ds locs s = (Inl ValueError, s))
   \<and> (\<not> DataFile.removable df \<longrightarrow> DataFile_remove df d t = (Inl ValueError, t))
   \<and> (DataFile.removable df \<and> \<not> os_path_exists t (DataFile_path df d)
        \<and> \<not> under_file t (abs_segs t (DataFile_path df d))
        \<longrightarrow> DataFile_remove df d t = (Inl FileNotFoundError, t))
   \<and> (DataFile.removable df \<and> \<not> os_path_exists t (DataFile_path df d)
        \<and> under_file t (abs_segs t (DataFile_path df d))
        \<longrightarrow> DataFile_remove df d t = (Inl NotADirectoryError, t))
   \<and> (DataSeries.removable ds \<and> DataSeries_path ds locs = Inr p \<and> \<not> os_path_isdir s p
        \<longrightarrow> DataSeries_remove ds locs s = (Inr (), s))"
proof (intro conjI impI)
  assume "\<not> DataSeries.removable ds"
  then show "DataSeries_remove ds locs s = (Inl ValueError, s)"
    by (simp add: DataSeries_remove_def)
next
  assume "\<not> DataFile.removable df"
  then show "DataFile_remove df d t = (Inl ValueError, t)"
    by (simp add: DataFile_remove_def)
next
  assume "DataFile.removable df \<and> \<not> os_path_exists t (DataFile_path df d)
        \<and> \<not> under_file t (abs_segs t (DataFile_path df d))"
  then show "DataFile_remove df d t = (Inl FileNotFoundError, t)"
    by (auto simp: DataFile_remove_def os_remove_def os_path_exists_def missing_error_def
        split: option.splits)
next
  assume "DataFile.removable df \<and> \<not> os_path_exists t (DataFile_path df d)
        \<and> under_file t (abs_segs t (DataFile_path df d))"
  then show "DataFile_remove df d t = (Inl NotADirectoryError, t)"
    by (auto simp: DataFile_remove_def os_remove_def os_path_exists_def missing_error_def
        split: option.splits)
next
  assume "DataSeries.removable ds \<and> DataSeries_path ds locs = Inr p \<and> \<not> os_path_isdir s p"
  then show "DataSeries_remove ds locs s = (Inr (), s)"
    by (simp add: DataSeries_remove_def DataSeries_exists_def err_bind_def)
qed

lemma remove_examples:
  "\<not> DataSeries.removable series_top"
  "\<not> DataFile.removable loc_file"
  "DataFile.removable removable_file"
  "\<not> os_path_exists fs0 (DataFile_path removable_file (Pth True [''P'']))"
  "\<not> under_file fs0 (abs_segs fs0 (DataFile_path removable_file (Pth True [''P''])))"
  "\<not> os_path_exists fs_a (DataFile_path removable_file (Pth True [''P'', ''a'', ''locs.txt'']))"
  "under_file fs_a (abs_segs fs_a (DataFile_path removable_file (Pth True [''P'', ''a'', ''locs.txt''])))"
  "DataSeries.removable series_a"
  "DataSeries_path series_a [''x''] = Inr (Pth True [''P'', ''x''])"
  "\<not> os_path_isdir fs0 (Pth True [''P'', ''x''])"
  by code_simp+

theorem remove_behaviour_witness:
  "DataSeries_remove series_top [''a''] fs0 = (Inl ValueError, fs0)
   \<and> DataFile_remove loc_file (Pth True [''P'']) fs0 = (Inl ValueError, fs0)
   \<and> DataFile_remove removable_file (Pth True [''P'']) fs0 = (Inl FileNotFoundError, fs0)
   \<and> DataFile_remove removable_file (Pth True [''P'', ''a'', ''locs.txt'']) fs_a
        = (Inl NotADirectoryError, fs_a)
   \<and> DataSeries_remove series_a [''x''] fs0 = (Inr (), fs0)"
  using remove_behaviour[where ds = series_top and locs = "[''a'']" and s = fs0
          and df = loc_file and d = "Pth True [''P'']" and t = fs0]
        remove_behaviour[where ds = series_a and locs = "[''x'']" and s = fs0
          and df = removable_file and d = "Pth True [''P'']" and t = fs0
          and p = "Pth True [''P'', ''x'']"]
        remove_behaviour[where ds = series_a and locs = "[''x'']" and s = fs0
          and df = removable_file and d = "Pth True [''P'', ''a'', ''locs.txt'']" and t = fs_a
          and p = "Pth True [''P'', ''x'']"]
  by (simp add: remove_examples)

theorem remove_missing_directory_succeeds:
  "DataSeries.removable series_a
   \<and> DataSeries_exists series_a [''x''] fs0 = Inr False
   \<and> DataSeries_remove series_a [''x''] fs0 = (Inr (), fs0)"
  by code_simp

section \<open>Creation is idempotent\<close>

lemma abs_segs_put_node [simp]: "abs_segs (put_node s q n) p = abs_segs s p"
  by (simp add: abs_segs_def put_node_def)

lemma lookup_segs_put_node:
  "lookup_segs (put_node s q n) k =
     (if k = [] then Some Dir else if k = q then Some n else lookup_segs s k)"
  by (simp add: lookup_segs_def put_node_def update_conv')

lemma isdir_iff:
  "os_path_isdir s x \<longleftrightarrow>
     (is_abs x \<or> segs x \<noteq> []) \<and> lookup_segs s (abs_segs s x) = Some Dir"
  by (auto simp: os_path_isdir_def lookup_def split: option.splits node.splits)

lemma isdir_put_node_Dir:
  "os_path_isdir s x \<Longrightarrow> os_path_isdir (put_node s q Dir) x"
  by (simp add: isdir_iff lookup_segs_put_node)

lemma os_mkdir_keeps:
  "os_mkdir p s = (r, s') \<Longrightarrow> os_path_isdir s x \<Longrightarrow> os_path_isdir s' x"
  by (auto simp: os_mkdir_def isdir_put_node_Dir split: if_splits option.splits)

lemma os_mkdir_makes:
  "os_mkdir p s = (Inr (), s') \<Longrightarrow> os_path_isdir s' p"
  by (auto simp: os_mkdir_def isdir_iff lookup_segs_put_node
      split: if_splits option.splits)

lemma os_makedirs_keeps:
  "os_makedirs p s = (r, s') \<Longrightarrow> os_path_isdir s x \<Longrightarrow> os_path_isdir s' x"
proof (induction p s arbitrary: r s' rule: os_makedirs.induct)
  case (1 p s)
  show ?case
  proof (cases "(is_abs (fst (os_path_split p)) \<or> segs (fst (os_path_split p)) \<noteq> [])
         \<and> snd (os_path_split p) \<noteq> [] \<and> \<not> os_path_exists s (fst (os_path_split p))")
    case True
    obtain r1 s1 where rec: "os_makedirs (fst (os_path_split p)) s = (r1, s1)"
      by (cases "os_makedirs (fst (os_path_split p)) s") auto
    from "1.IH"[OF True rec "1.prems"(2)] have k1: "os_path_isdir s1 x" .
    from "1.prems"(1) True rec have "os_mkdir p s1 = (r, s') \<or> s' = s1"
      by (subst (asm) os_makedirs.simps) (auto split: sum.splits if_splits)
    with k1 show ?thesis by (auto dest: os_mkdir_keeps)
  next
    case False
    with "1.prems"(1) have "os_mkdir p s = (r, s')"
      by (subst (asm) os_makedirs.simps) auto
    from os_mkdir_keeps[OF this "1.prems"(2)] show ?thesis .
  qed
qed

lemma os_makedirs_makes:
  assumes "os_makedirs p s = (Inr (), s')"
  shows "os_path_isdir s' p"
proof -
  from assms have "\<exists>s1. os_mkdir p s1 = (Inr (), s')"
    by (subst (asm) os_makedirs.simps) (auto split: if_splits sum.splits prod.splits)
  then show ?thesis by (auto dest: os_mkdir_makes)
qed

lemma io_write_file_keeps:
  assumes "io_write_file p c s = (r, s')" and "os_path_isdir s x"
  shows "os_path_isdir s' x"
proof (cases r)
  case (Inl e)
  with assms(1) have "s' = s"
    by (auto simp: io_write_file_def split: if_splits option.splits)
  with assms(2) show ?thesis by simp
next
  case (Inr u)
  with assms(1) have s': "s' = put_node s (abs_segs s p) (File c)"
    and np: "\<not> os_path_isdir s p" and ne: "is_abs p \<or> segs p \<noteq> []"
    by (auto simp: io_write_file_def split: if_splits option.splits)
  from np ne assms(2) have "abs_segs s x \<noteq> abs_segs s p"
    by (auto simp: isdir_iff)
  with assms(2) show ?thesis
    by (simp add: s' isdir_iff lookup_segs_put_node)
qed

lemma DataFile_write_keeps:
  "DataFile_write df v d s = (r, s') \<Longrightarrow> os_path_isdir s x \<Longrightarrow> os_path_isdir s' x"
  by (auto simp: DataFile_write_def split: if_splits dest: io_write_file_keeps)

lemma create_here_ok:
  assumes "create_here ds locs s = (Inr (), s')"
  shows "\<exists>p. DataSeries_path ds locs = Inr p \<and> os_path_isdir s' p
           \<and> (\<forall>x. os_path_isdir s x \<longrightarrow> os_path_isdir s' x)"
proof -
  from assms obtain p where p: "DataSeries_path ds locs = Inr p"
    by (cases "DataSeries_path ds locs")
       (auto simp: create_here_def DataSeries_exists_def err_bind_def)
  show ?thesis
  proof (cases "os_path_isdir s p")
    case True
    with assms p have "s' = s"
      by (simp add: create_here_def DataSeries_exists_def err_bind_def)
    with True p show ?thesis by simp
  next
    case False
    with assms p obtain s1 where
      mk: "os_makedirs p s = (Inr (), s1)" and
      rest: "(case loc_dfile ds of None \<Rightarrow> io_pure (Inr ())
              | Some df \<Rightarrow> io_bind (io_pure (self_locators ds locs))
                            (\<lambda>locs'. DataFile_write df locs' p)) s1 = (Inr (), s')"
      by (auto simp: create_here_def DataSeries_exists_def err_bind_def io_bind_def
          split: prod.splits sum.splits)
    have k1: "\<And>x. os_path_isdir s x \<Longrightarrow> os_path_isdir s1 x"
      using mk by (rule os_makedirs_keeps)
    have m1: "os_path_isdir s1 p" using mk by (rule os_makedirs_makes)
    have k2: "\<And>x. os_path_isdir s1 x \<Longrightarrow> os_path_isdir s' x"
      using rest
      by (auto simp: io_pure_def io_bind_def split: option.splits sum.splits prod.splits
          dest: DataFile_write_keeps)
    from p m1 k1 k2 show ?thesis by blast
  qed
qed

lemma create_here_noop:
  "DataSeries_path ds locs = Inr p \<Longrightarrow> os_path_isdir s p \<Longrightarrow> create_here ds locs s = (Inr (), s)"
  by (simp add: create_here_def DataSeries_exists_def err_bind_def)

lemma DataSeries_create_settles:
  "DataSeries_create ds locs s = (Inr (), s') \<Longrightarrow>
     (\<forall>x. os_path_isdir s x \<longrightarrow> os_path_isdir s' x)
     \<and> DataSeries_exists ds locs s' = Inr True
     \<and> (\<forall>t. (\<forall>x. os_path_isdir s' x \<longrightarrow> os_path_isdir t x)
            \<longrightarrow> DataSeries_create ds locs t = (Inr (), t))"
proof (induction ds arbitrary: locs s s' rule: root_locator_count.induct)
  case (1 pfx m n d l rm)
  let ?ds = "DataSeries pfx m n d l None rm"
  from "1.prems" have "create_here ?ds locs s = (Inr (), s')" by simp
  from create_here_ok[OF this] obtain p where
    p: "DataSeries_path ?ds locs = Inr p" and d: "os_path_isdir s' p" and
    k: "\<forall>x. os_path_isdir s x \<longrightarrow> os_path_isdir s' x" by blast
  have "\<And>t. (\<forall>x. os_path_isdir s' x \<longrightarrow> os_path_isdir t x)
          \<Longrightarrow> DataSeries_create ?ds locs t = (Inr (), t)"
    using p d by (simp add: create_here_noop del: DataSeries_path.simps)
  with p d k show ?case
    by (simp add: DataSeries_exists_def err_bind_def del: DataSeries_path.simps DataSeries_create.simps)
next
  case (2 pfx m n d l r rm)
  let ?ds = "DataSeries pfx m n d l (Some r) rm"
  let ?rl = "take (length locs - nlocs ?ds) locs"
  have rt: "root ?ds = Some r" by simp
  from "2.prems" obtain s1 where
    nle: "nlocs ?ds \<le> length locs" and
    c1: "DataSeries_create r ?rl s = (Inr (), s1)" and
    c2: "create_here ?ds locs s1 = (Inr (), s')"
    unfolding DataSeries_create_root_Some[OF rt]
    by (auto split: if_splits prod.splits sum.splits)
  from "2.IH"[OF c1] have
    k1: "\<forall>x. os_path_isdir s x \<longrightarrow> os_path_isdir s1 x" and
    again1: "\<And>t. (\<forall>x. os_path_isdir s1 x \<longrightarrow> os_path_isdir t x)
                \<Longrightarrow> DataSeries_create r ?rl t = (Inr (), t)"
    by blast+
  from create_here_ok[OF c2] obtain p where
    p: "DataSeries_path ?ds locs = Inr p" and d: "os_path_isdir s' p" and
    k2: "\<forall>x. os_path_isdir s1 x \<longrightarrow> os_path_isdir s' x" by blast
  have again: "DataSeries_create ?ds locs t = (Inr (), t)"
    if t: "\<forall>x. os_path_isdir s' x \<longrightarrow> os_path_isdir t x" for t
  proof -
    from t k2 have "\<forall>x. os_path_isdir s1 x \<longrightarrow> os_path_isdir t x" by blast
    from again1[OF this] have "DataSeries_create r ?rl t = (Inr (), t)" .
    moreover from t d have "os_path_isdir t p" by blast
    with p have "create_here ?ds locs t = (Inr (), t)" by (rule create_here_noop)
    ultimately show ?thesis
      unfolding DataSeries_create_root_Some[OF rt] using nle by simp
  qed
  from k1 k2 p d again show ?case
    by (simp add: DataSeries_exists_def err_bind_def del: DataSeries_path.simps DataSeries_create.simps)
qed

text \<open>
  C8. After a successful \<open>create\<close>, a second \<open>create\<close> of the same locator does not
  raise and leaves the whole state as it is: no directory is made and every file, the
  recorded locator file among them, keeps its contents; and \<open>exists\<close> holds.
\<close>

theorem create_idempotent:
  assumes "DataSeries_create ds locs s = (Inr (), s')"
  shows "DataSeries_create ds locs s' = (Inr (), s') \<and> DataSeries_exists ds locs s' = Inr True"
  using DataSeries_create_settles[OF assms] by blast

lemma eval_create_a:
  "DataSeries_create series_a [''a''] fs0 =
     (Inr (), fs0\<lparr>nodes := [([''P''], Dir), ([''P'', ''a''], Dir),
                              ([''P'', ''a'', ''locs.txt''], File ''a'')]\<rparr>)"
  by code_simp

theorem create_idempotent_witness:
  "DataSeries_create series_a [''a''] fs0 =
     (Inr (), fs0\<lparr>nodes := [([''P''], Dir), ([''P'', ''a''], Dir),
                              ([''P'', ''a'', ''locs.txt''], File ''a'')]\<rparr>)
   \<and> DataSeries_create series_a [''a'']
        (fs0\<lparr>nodes := [([''P''], Dir), ([''P'', ''a''], Dir),
                         ([''P'', ''a'', ''locs.txt''], File ''a'')]\<rparr>) =
     (Inr (), fs0\<lparr>nodes := [([''P''], Dir), ([''P'', ''a''], Dir),
                              ([''P'', ''a'', ''locs.txt''], File ''a'')]\<rparr>)
   \<and> DataSeries_exists series_a [''a'']
        (fs0\<lparr>nodes := [([''P''], Dir), ([''P'', ''a''], Dir),
                         ([''P'', ''a'', ''locs.txt''], File ''a'')]\<rparr>) = Inr True"
  using create_idempotent[OF eval_create_a] eval_create_a by simp

section \<open>The base prefix of a series\<close>

lemma create_here_keeps:
  fixes ds :: "'l DataSeries"
  assumes "create_here ds locs s = (r, s')" and "os_path_isdir s x"
  shows "os_path_isdir s' x"
proof (cases "DataSeries_path ds locs")
  case (Inl e)
  with assms show ?thesis
    by (simp add: create_here_def DataSeries_exists_def err_bind_def)
next
  case (Inr p)
  show ?thesis
  proof (cases "os_path_isdir s p")
    case True
    with assms Inr show ?thesis
      by (simp add: create_here_def DataSeries_exists_def err_bind_def)
  next
    case False
    obtain r1 s1 where mk: "os_makedirs p s = (r1, s1)"
      by (cases "os_makedirs p s") auto
    from os_makedirs_keeps[OF mk assms(2)] have k1: "os_path_isdir s1 x" .
    from assms(1) Inr False mk have
      "s' = s1 \<or> (\<exists>(df :: 'l list DataFile) v. DataFile_write df v p s1 = (r, s'))"
      by (auto simp: create_here_def DataSeries_exists_def err_bind_def io_bind_def io_pure_def
          split: sum.splits option.splits prod.splits)
    with k1 show ?thesis by (auto dest: DataFile_write_keeps)
  qed
qed

lemma DataSeries_create_keeps:
  "DataSeries_create ds locs s = (r, s') \<Longrightarrow> os_path_isdir s x \<Longrightarrow> os_path_isdir s' x"
proof (induction ds arbitrary: locs s s' r rule: root_locator_count.induct)
  case (1 pfx m n d l rm)
  then show ?case by (auto dest: create_here_keeps)
next
  case (2 pfx m n d l rt rm)
  let ?ds = "DataSeries pfx m n d l (Some rt) rm"
  have rt: "root ?ds = Some rt" by simp
  obtain r1 s1 where c1: "DataSeries_create rt (take (length locs - nlocs ?ds) locs) s = (r1, s1)"
    by (cases "DataSeries_create rt (take (length locs - nlocs ?ds) locs) s") auto
  from "2.IH"[OF c1 "2.prems"(2)] have k1: "os_path_isdir s1 x" .
  from "2.prems"(1) c1 have "s' = s \<or> s' = s1 \<or> create_here ?ds locs s1 = (r, s')"
    unfolding DataSeries_create_root_Some[OF rt]
    by (auto split: if_splits sum.splits)
  with k1 "2.prems"(2) show ?case by (auto dest: create_here_keeps)
qed

text \<open>
  C10 (amended). The constructor fails unless the prefix is a directory at that moment;
  the prefix it stores is absolute, is the absolute form of the one given, and names that
  directory; and every later \<open>create\<close>, of any series, keeps it a directory. Nothing
  checks the prefix again: a \<open>remove\<close> of an enclosing directory deletes it.
\<close>

theorem init_prefix:
  "(\<not> os_path_isdir s pfx \<longrightarrow> DataSeries_init pfx m n d l rt rm s = Inl AssertionError)
   \<and> (DataSeries_init pfx m n d l rt rm s = Inr ds \<longrightarrow>
        os_path_isdir s pfx \<and> prefix ds = os_path_abspath s pfx \<and> is_abs (prefix ds)
        \<and> os_path_isdir s (prefix ds)
        \<and> (\<forall>ds' locs r s'. DataSeries_create ds' locs s = (r, s')
              \<longrightarrow> os_path_isdir s' (prefix ds)))"
proof (intro conjI impI)
  assume "\<not> os_path_isdir s pfx"
  then show "DataSeries_init pfx m n d l rt rm s = Inl AssertionError"
    by (simp add: DataSeries_init_def)
next
  assume A: "DataSeries_init pfx m n d l rt rm s = Inr ds"
  then have dir: "os_path_isdir s pfx" and ds: "ds = DataSeries (os_path_abspath s pfx) m n d l rt rm"
    by (auto simp: DataSeries_init_def split: if_splits)
  from dir have here: "os_path_isdir s (prefix ds)"
    by (simp add: ds isdir_iff os_path_abspath_def abs_segs_def)
  show "os_path_isdir s pfx" by (rule dir)
  show "prefix ds = os_path_abspath s pfx" by (simp add: ds)
  show "is_abs (prefix ds)" by (simp add: ds os_path_abspath_def)
  show "os_path_isdir s (prefix ds)" by (rule here)
  show "\<forall>ds' locs r s'. DataSeries_create ds' locs s = (r, s') \<longrightarrow> os_path_isdir s' (prefix ds)"
    using here by (blast dest: DataSeries_create_keeps)
qed

lemma init_examples:
  "os_path_isdir fs_a (Pth True [''P'', ''a''])"
  "\<not> os_path_isdir fs0 (Pth True [''P'', ''a''])"
  "os_path_abspath fs_a (Pth True [''P'', ''a'']) = Pth True [''P'', ''a'']"
  by code_simp+

lemma init_sub:
  "DataSeries_init (Pth True [''P'', ''a'']) (\<lambda>locs. Pth False locs) 1 1 None None False fs_a
     = Inr series_sub"
  by (simp add: DataSeries_init_def init_examples series_sub_def)

theorem init_prefix_witness:
  "DataSeries_init (Pth True [''P'', ''a'']) (\<lambda>locs. Pth False locs) 1 1 None None False fs0
     = (Inl AssertionError :: error + string DataSeries)
   \<and> DataSeries_init (Pth True [''P'', ''a'']) (\<lambda>locs. Pth False locs) 1 1 None None False fs_a
     = Inr series_sub
   \<and> prefix series_sub = os_path_abspath fs_a (Pth True [''P'', ''a''])
   \<and> is_abs (prefix series_sub)
   \<and> os_path_isdir fs_a (prefix series_sub)
   \<and> os_path_isdir (snd (DataSeries_create series_a [''b''] fs_a)) (prefix series_sub)"
proof -
  have pr: "DataSeries_create series_a [''b''] fs_a =
      (fst (DataSeries_create series_a [''b''] fs_a), snd (DataSeries_create series_a [''b''] fs_a))"
    by simp
  have first: "DataSeries_init (Pth True [''P'', ''a'']) (\<lambda>locs. Pth False locs) 1 1 None None False fs0
     = (Inl AssertionError :: error + string DataSeries)"
    using init_prefix[where s = fs0 and pfx = "Pth True [''P'', ''a'']"
          and m = "\<lambda>locs. Pth False locs" and n = 1 and d = 1 and l = None and rt = None
          and rm = False and ds = series_sub]
    by (simp add: init_examples)
  have second: "os_path_isdir fs_a (Pth True [''P'', ''a''])
      \<and> prefix series_sub = os_path_abspath fs_a (Pth True [''P'', ''a''])
      \<and> is_abs (prefix series_sub)
      \<and> os_path_isdir fs_a (prefix series_sub)
      \<and> (\<forall>ds' locs r s'. DataSeries_create ds' locs fs_a = (r, s')
              \<longrightarrow> os_path_isdir s' (prefix series_sub))"
    using init_prefix[where s = fs_a and pfx = "Pth True [''P'', ''a'']"
          and m = "\<lambda>locs. Pth False locs" and n = 1 and d = 1 and l = None and rt = None
          and rm = False and ds = series_sub] init_sub
    by blast
  from second pr have "os_path_isdir (snd (DataSeries_create series_a [''b''] fs_a)) (prefix series_sub)"
    by blast
  with first second init_sub show ?thesis by blast
qed

theorem prefix_removed_after_init:
  "os_path_isdir fs_a (Pth True [''P'', ''a''])
   \<and> prefix series_sub = Pth True [''P'', ''a'']
   \<and> DataSeries_remove series_a [''a''] fs_a = (Inr (), fs0)
   \<and> \<not> os_path_isdir fs0 (prefix series_sub)
   \<and> DataSeries_exists series_sub [''x''] fs0 = Inr False"
  by code_simp

section \<open>Listing the keys of the document\<close>

text \<open>
  C2. The specification has \<open>existing(prefix_key)\<close> return the keys under the prefix key
  whose values are mappings. The code returns every key at the top of the document,
  whatever the prefix key and whatever the values: on the document
  \<open>{a: {b: {}}, x: 1}\<close> and the prefix key \<open>[a]\<close> it returns \<open>a\<close> and \<open>x\<close>, where the
  specification lists \<open>b\<close>; with the empty prefix key it returns the same, where the
  specification lists \<open>a\<close> alone.
\<close>

theorem existing_ignores_prefix_and_kind:
  "fst (JSONEntry_existing entry_energy [''a''] (js_doc (JObj nested_doc))) = Inr [[''a''], [''x'']]
   \<and> spec_existing [''a''] nested_doc = [''b'']
   \<and> fst (JSONEntry_existing entry_energy [] (js_doc (JObj nested_doc))) = Inr [[''a''], [''x'']]
   \<and> spec_existing [] nested_doc = [''a'']"
  by code_simp

section \<open>Reading a key that is not in the document\<close>

text \<open>
  C4. The navigation loop of \<open>exists\<close> and \<open>_read\<close> does not stop at an absent segment:
  it clears the flag and tries the next segment at the same mapping. On the document
  \<open>{b: 1}\<close> and the key \<open>[a, b]\<close>, whose first segment is absent, the second segment is
  found as a leaf and \<open>dct.keys()\<close> raises \<open>AttributeError\<close>, from \<open>exists\<close> and \<open>read\<close>
  alike, although the document is a well-formed nested mapping.
\<close>

theorem read_absent_key_raises:
  "fst (JSONObject_exists energy [''a'', ''b''] (Pth True [''P'', ''db.json'']) (js_doc (JObj leaf_doc)))
     = Inl AttributeError
   \<and> JSONObject_private_read energy [''a'', ''b''] (JObj leaf_doc) = Inl AttributeError
   \<and> fst (JSONEntry_exists entry_energy [''a'', ''b''] False (js_doc (JObj leaf_doc)))
     = Inl AttributeError
   \<and> fst (JSONEntry_read entry_energy [''a'', ''b''] False (js_doc (JObj leaf_doc)))
     = Inl AttributeError"
  by code_simp

section \<open>Enumerating the existing locators\<close>

lemma in_keys_iff: "k \<in> fst ` set al \<longleftrightarrow> map_of al k \<noteq> None"
  by (simp add: map_of_eq_None_iff)

lemma os_listdir_set: "set (os_listdir s q) = {c. lookup_segs s (q @ [c]) \<noteq> None}"
proof -
  have split: "\<And>k. k \<noteq> [] \<and> butlast k = q \<longleftrightarrow> k = q @ [last k]"
    by (metis butlast_snoc snoc_eq_iff_butlast)
  have "set (os_listdir s q) = {last k |k. k \<in> fst ` set (nodes s) \<and> k = q @ [last k]}"
    by (auto simp: os_listdir_def split)
  also have "\<dots> = {c. q @ [c] \<in> fst ` set (nodes s)}"
  proof (intro set_eqI iffI)
    fix c
    assume "c \<in> {last k |k. k \<in> fst ` set (nodes s) \<and> k = q @ [last k]}"
    then obtain k where "c = last k" "k \<in> fst ` set (nodes s)" "k = q @ [last k]"
      by blast
    then show "c \<in> {c. q @ [c] \<in> fst ` set (nodes s)}" by simp
  next
    fix c
    assume "c \<in> {c. q @ [c] \<in> fst ` set (nodes s)}"
    then have "c = last (q @ [c]) \<and> q @ [c] \<in> fst ` set (nodes s)
        \<and> q @ [c] = q @ [last (q @ [c])]"
      by simp
    then show "c \<in> {last k |k. k \<in> fst ` set (nodes s) \<and> k = q @ [last k]}"
      by blast
  qed
  finally show ?thesis by (simp add: in_keys_iff lookup_segs_def)
qed

lemma wf_parent:
  assumes "wf_fs s" and "lookup_segs s (q @ [c]) \<noteq> None"
  shows "lookup_segs s q = Some Dir"
proof -
  from assms(2) have "q @ [c] \<in> fst ` set (nodes s)"
    by (simp add: lookup_segs_def in_keys_iff)
  moreover from assms(1) have "\<forall>k \<in> fst ` set (nodes s). lookup_segs s (butlast k) = Some Dir"
    by (simp add: wf_fs_def list_all_iff)
  ultimately have "lookup_segs s (butlast (q @ [c])) = Some Dir" by blast
  then show ?thesis by simp
qed

lemma tok_match_star: "tok_match [Star] nm"
  by (induction nm) auto

lemma fnmatch_star: "fnmatch nm ''*''"
  by (simp add: fnmatch_def tok_match_star)

lemma glob1_star_set:
  assumes "wf_fs s"
  shows "set (glob1 s dr ''*'' dironly) =
         {nm. lookup_segs s (dr @ [nm]) \<noteq> None \<and> \<not> hidden nm
              \<and> (dironly \<longrightarrow> lookup_segs s (dr @ [nm]) = Some Dir)}"
proof (cases "lookup_segs s dr = Some Dir")
  case True
  then show ?thesis
    by (auto simp: glob1_def fnmatch_star hidden_def os_listdir_set)
next
  case False
  with wf_parent[OF assms, of dr] have none: "\<And>nm. lookup_segs s (dr @ [nm]) = None"
    by blast
  from False have "glob1 s dr ''*'' dironly = []"
    by (simp add: glob1_def split: option.splits node.splits)
  with none show ?thesis by simp
qed

lemma distinct_glob1: "distinct (glob1 s dr pat dironly)"
  by (simp add: glob1_def os_listdir_def split: option.splits node.splits)

lemma distinct_concat_tails:
  "distinct ds \<Longrightarrow> (\<And>d. distinct (g d)) \<Longrightarrow>
     distinct (concat (map (\<lambda>d. map (\<lambda>nm. d @ [nm]) (g d)) ds))"
proof (induction ds)
  case Nil
  then show ?case by simp
next
  case (Cons d ds)
  then show ?case by (auto simp: distinct_map inj_on_def)
qed

lemma stars_magic: "list_ex has_magic (replicate d ''*'') \<longleftrightarrow> 0 < d"
  by (cases d) (auto simp: list_ex_iff has_magic_def)

lemma mem_concat_tails:
  "q \<in> set (concat (map (\<lambda>d. map (\<lambda>nm. d @ [nm]) (g d)) ds))
     \<longleftrightarrow> (\<exists>d \<in> set ds. \<exists>nm \<in> set (g d). q = d @ [nm])"
  by auto

lemma iglob_stars:
  assumes wf: "wf_fs s" and plain: "\<not> list_ex has_magic P"
  shows "set (iglob s True (replicate d ''*'' @ rev P) dironly) =
           {P @ r |r. length r = d \<and> list_all (\<lambda>c. \<not> hidden c) r
                      \<and> lookup_segs s (P @ r) \<noteq> None
                      \<and> (0 < d \<and> dironly \<longrightarrow> lookup_segs s (P @ r) = Some Dir)}
         \<and> distinct (iglob s True (replicate d ''*'' @ rev P) dironly)"
proof (induction d arbitrary: dironly)
  case 0
  show ?case
  proof (cases "rev P")
    case Nil
    then show ?thesis by (simp add: lookup_segs_def)
  next
    case (Cons b ds)
    then have P: "P = rev (b # ds)" by (metis rev_rev_ident)
    from plain P have "\<not> list_ex has_magic (b # ds)" by (simp add: list_ex_iff)
    then show ?thesis
      using Cons P by (auto simp: abs_segs_def split: option.splits)
  qed
next
  case (Suc d)
  define ds where "ds = replicate d ''*'' @ rev P"
  define dirs where "dirs = (if list_ex has_magic ds then iglob s True ds True else [rev ds])"
  have dirs: "set dirs = {P @ r |r. length r = d \<and> list_all (\<lambda>c. \<not> hidden c) r
                      \<and> (d = 0 \<or> lookup_segs s (P @ r) = Some Dir)}"
    and ddirs: "distinct dirs"
  proof -
    show "set dirs = {P @ r |r. length r = d \<and> list_all (\<lambda>c. \<not> hidden c) r
                      \<and> (d = 0 \<or> lookup_segs s (P @ r) = Some Dir)}"
    proof (cases "d = 0")
      case True
      with plain show ?thesis by (simp add: dirs_def ds_def)
    next
      case False
      then have "list_ex has_magic ds" by (simp add: ds_def stars_magic)
      then have "dirs = iglob s True (replicate d ''*'' @ rev P) True"
        by (simp add: dirs_def ds_def)
      with Suc[of True] False show ?thesis by auto
    qed
    show "distinct dirs"
    proof (cases "list_ex has_magic ds")
      case True
      then have "dirs = iglob s True (replicate d ''*'' @ rev P) True"
        by (simp add: dirs_def ds_def)
      with Suc[of True] show ?thesis by simp
    next
      case False
      then show ?thesis by (simp add: dirs_def)
    qed
  qed
  have unfold: "iglob s True (replicate (Suc d) ''*'' @ rev P) dironly =
      concat (map (\<lambda>dr. map (\<lambda>nm. dr @ [nm]) (glob1 s dr ''*'' dironly)) dirs)"
    by (simp add: has_magic_def abs_segs_def dirs_def ds_def)
  have "distinct (concat (map (\<lambda>dr. map (\<lambda>nm. dr @ [nm]) (glob1 s dr ''*'' dironly)) dirs))"
    using ddirs by (intro distinct_concat_tails) (simp_all add: distinct_glob1)
  moreover have "set (concat (map (\<lambda>dr. map (\<lambda>nm. dr @ [nm]) (glob1 s dr ''*'' dironly)) dirs)) =
           {P @ r |r. length r = Suc d \<and> list_all (\<lambda>c. \<not> hidden c) r
                      \<and> lookup_segs s (P @ r) \<noteq> None
                      \<and> (dironly \<longrightarrow> lookup_segs s (P @ r) = Some Dir)}"
    (is "?L = ?R")
  proof (intro set_eqI iffI)
    fix q assume "q \<in> ?L"
    then obtain dr nm where dr: "dr \<in> set dirs" and nm: "nm \<in> set (glob1 s dr ''*'' dironly)"
      and q: "q = dr @ [nm]" unfolding mem_concat_tails by blast
    from dr dirs obtain r where r: "dr = P @ r" "length r = d" "list_all (\<lambda>c. \<not> hidden c) r"
      by blast
    from nm have "lookup_segs s (dr @ [nm]) \<noteq> None" "\<not> hidden nm"
        "dironly \<longrightarrow> lookup_segs s (dr @ [nm]) = Some Dir"
      by (simp_all add: glob1_star_set[OF wf])
    with r q have "q = P @ (r @ [nm]) \<and> length (r @ [nm]) = Suc d
        \<and> list_all (\<lambda>c. \<not> hidden c) (r @ [nm])
        \<and> lookup_segs s (P @ (r @ [nm])) \<noteq> None
        \<and> (dironly \<longrightarrow> lookup_segs s (P @ (r @ [nm])) = Some Dir)"
      by simp
    then show "q \<in> ?R" by blast
  next
    fix q assume "q \<in> ?R"
    then obtain r' where r': "q = P @ r'" "length r' = Suc d" "list_all (\<lambda>c. \<not> hidden c) r'"
        "lookup_segs s (P @ r') \<noteq> None" "dironly \<longrightarrow> lookup_segs s (P @ r') = Some Dir"
      by blast
    from r'(2) obtain r nm where rn: "r' = r @ [nm]"
      by (cases r' rule: rev_cases) auto
    from r'(4) rn have ex: "lookup_segs s ((P @ r) @ [nm]) \<noteq> None" by simp
    from wf_parent[OF wf this] have pd: "lookup_segs s (P @ r) = Some Dir" .
    from r'(2,3) rn pd have "P @ r \<in> set dirs" unfolding dirs by auto
    moreover from r'(3,5) rn ex have "nm \<in> set (glob1 s (P @ r) ''*'' dironly)"
      by (simp add: glob1_star_set[OF wf])
    moreover from r'(1) rn have "q = (P @ r) @ [nm]" by simp
    ultimately show "q \<in> ?L" unfolding mem_concat_tails by blast
  qed
  ultimately show ?case by (simp only: unfold) simp
qed


lemma err_all_map_Inr:
  "(\<And>x. x \<in> set xs \<Longrightarrow> f x = Inr (g x)) \<Longrightarrow> err_all (map f xs) = Inr (map g xs)"
  by (induction xs) auto

lemma join_stars:
  "foldl os_path_join pfx (replicate d (Pth False [x]))
     = Pth (is_abs pfx) (segs pfx @ replicate d x)"
proof (induction d arbitrary: pfx)
  case 0
  show ?case by simp
next
  case (Suc d)
  have "os_path_join pfx (Pth False [x]) = Pth (is_abs pfx) (segs pfx @ [x])"
    by (simp add: os_path_join_def)
  with Suc[of "os_path_join pfx (Pth False [x])"] show ?case by simp
qed

lemma DataFile_read_existing:
  "DataFile_exists df p s \<Longrightarrow>
     DataFile_read df p s = Inr (DataFile.reader df (file_text s (DataFile_path df p)))"
  by (auto simp: DataFile_read_def DataFile_exists_def os_path_isfile_def io_read_file_def
      file_text_def err_bind_def split: option.splits node.splits)

lemma existing_paths_plain:
  assumes wf: "wf_fs s" and ab: "is_abs pfx" and plain: "\<not> list_ex has_magic (segs pfx)"
    and pfx: "(case root ds of None \<Rightarrow> Inr (prefix ds) | Some r \<Rightarrow> DataSeries_path r root_locs) = Inr pfx"
  shows "\<exists>pths. existing_paths ds root_locs s = Inr pths
     \<and> sorted (map path_str pths) \<and> distinct pths
     \<and> set pths = {os_path_join pfx (Pth False q) |q.
                     length q = depth ds \<and> list_all (\<lambda>c. \<not> hidden c) q
                     \<and> os_path_isdir s (os_path_join pfx (Pth False q))}"
proof -
  let ?found = "iglob s True (replicate (depth ds) ''*'' @ rev (segs pfx)) False"
  let ?raw = "filter (os_path_isdir s) (map (Pth True) ?found)"
  let ?pths = "sort_key path_str (map (os_path_join pfx) ?raw)"
  have gl: "glob_glob s (foldl os_path_join pfx (replicate (depth ds) (Pth False [''*''])))
      = map (Pth True) ?found"
    using ab by (simp add: join_stars glob_glob_def)
  have eq: "existing_paths ds root_locs s = Inr ?pths"
    by (simp add: existing_paths_def pfx err_bind_def gl)
  have join_id: "map (os_path_join pfx) ?raw = ?raw"
    by (auto simp: os_path_join_def intro!: map_idI)
  note found = iglob_stars[OF wf plain, of "depth ds" False]
  have dist: "distinct ?raw"
    using found by (simp add: distinct_map inj_on_def)
  have st: "set ?pths = {os_path_join pfx (Pth False q) |q.
                     length q = depth ds \<and> list_all (\<lambda>c. \<not> hidden c) q
                     \<and> os_path_isdir s (os_path_join pfx (Pth False q))}"
    using ab found
    by (auto simp: join_id os_path_join_def abs_segs_def isdir_iff)
  have "sorted (map path_str ?pths)" by simp
  moreover have "distinct ?pths" using dist by (simp add: join_id)
  ultimately show ?thesis using eq st by blast
qed

text \<open>
  What \<open>existing\<close> does return on a well-formed filesystem when no segment of the resolved
  prefix holds one of the pattern characters \<open>*\<close>, \<open>?\<close>, \<open>[\<close>: over the directories
  exactly \<open>depth\<close> segments below the prefix none of whose segments begins with a dot, each
  once and in the order of their path strings, the locator read back from the locator file
  of each directory that has one, with the root locator in front unless \<open>relative\<close> is set.
\<close>

lemma existing_enumerates_visible:
  assumes "0 < nlocs ds" and "loc_dfile ds = Some df"
    and "length root_locs = root_locator_count ds"
    and "(case root ds of None \<Rightarrow> Inr (prefix ds) | Some r \<Rightarrow> DataSeries_path r root_locs) = Inr pfx"
    and "is_abs pfx" and "\<not> list_ex has_magic (segs pfx)" and "wf_fs s"
  shows "\<exists>pths.
      DataSeries_existing (Suc fuel) ds root_locs relative s =
        Inr (map (\<lambda>p. (if relative then [] else root_locs)
                        @ DataFile.reader df (file_text s (DataFile_path df p)))
                 (filter (\<lambda>p. DataFile_exists df p s) pths))
      \<and> sorted (map path_str pths) \<and> distinct pths
      \<and> set pths = {os_path_join pfx (Pth False q) |q.
                      length q = depth ds \<and> list_all (\<lambda>c. \<not> hidden c) q
                      \<and> os_path_isdir s (os_path_join pfx (Pth False q))}"
proof -
  from existing_paths_plain[OF assms(7) assms(5) assms(6) assms(4)] obtain pths where
    ep: "existing_paths ds root_locs s = Inr pths" and
    so: "sorted (map path_str pths)" and di: "distinct pths" and
    st: "set pths = {os_path_join pfx (Pth False q) |q.
                      length q = depth ds \<and> list_all (\<lambda>c. \<not> hidden c) q
                      \<and> os_path_isdir s (os_path_join pfx (Pth False q))}"
    by blast
  have rd: "err_all (map (\<lambda>p. DataFile_read df p s) (filter (\<lambda>p. DataFile_exists df p s) pths))
      = Inr (map (\<lambda>p. DataFile.reader df (file_text s (DataFile_path df p)))
                 (filter (\<lambda>p. DataFile_exists df p s) pths))"
    by (rule err_all_map_Inr) (simp add: DataFile_read_existing)
  have "DataSeries_existing (Suc fuel) ds root_locs relative s =
        Inr (map (\<lambda>p. (if relative then [] else root_locs)
                        @ DataFile.reader df (file_text s (DataFile_path df p)))
                 (filter (\<lambda>p. DataFile_exists df p s) pths))"
    using assms(1,2,3) by (simp add: ep rd err_bind_def py_assert_def comp_def)
  with so di st show ?thesis by blast
qed

lemma existing_examples:
  "0 < nlocs series_a"
  "length ([] :: string list) = root_locator_count series_a"
  "(case root series_a of None \<Rightarrow> Inr (prefix series_a)
    | Some r \<Rightarrow> DataSeries_path r []) = Inr (Pth True [''P''])"
  "is_abs (Pth True [''P''])" "\<not> list_ex has_magic (segs (Pth True [''P'']))" "wf_fs fs_abc"
  "snd (DataSeries_create series_a [''c''] (snd (DataSeries_create series_a [''a'']
      (snd (DataSeries_create series_a [''b''] fs0))))) = fs_abc"
  "DataSeries_existing (Suc 0) series_a [] False fs_abc = Inr [[''a''], [''b''], [''c'']]"
  by code_simp+

lemma series_a_loc_dfile: "loc_dfile series_a = Some loc_file"
  by (simp add: series_a_def)

lemma existing_enumerates_visible_example:
  "snd (DataSeries_create series_a [''c''] (snd (DataSeries_create series_a [''a'']
      (snd (DataSeries_create series_a [''b''] fs0))))) = fs_abc
   \<and> wf_fs fs_abc
   \<and> DataSeries_existing (Suc 0) series_a [] False fs_abc = Inr [[''a''], [''b''], [''c'']]
   \<and> (\<exists>pths.
        (Inr [[''a''], [''b''], [''c'']] :: error + string list list) =
          Inr (map (\<lambda>p. DataFile.reader loc_file (file_text fs_abc (DataFile_path loc_file p)))
                 (filter (\<lambda>p. DataFile_exists loc_file p fs_abc) pths))
        \<and> sorted (map path_str pths) \<and> distinct pths
        \<and> set pths = {os_path_join (Pth True [''P'']) (Pth False q) |q.
                      length q = depth series_a \<and> list_all (\<lambda>c. \<not> hidden c) q
                      \<and> os_path_isdir fs_abc (os_path_join (Pth True [''P'']) (Pth False q))})"
proof -
  from existing_enumerates_visible[OF existing_examples(1) series_a_loc_dfile existing_examples(2-6),
      of 0 False, unfolded existing_examples(8)]
  have "\<exists>pths.
        (Inr [[''a''], [''b''], [''c'']] :: error + string list list) =
          Inr (map (\<lambda>p. DataFile.reader loc_file (file_text fs_abc (DataFile_path loc_file p)))
                 (filter (\<lambda>p. DataFile_exists loc_file p fs_abc) pths))
        \<and> sorted (map path_str pths) \<and> distinct pths
        \<and> set pths = {os_path_join (Pth True [''P'']) (Pth False q) |q.
                      length q = depth series_a \<and> list_all (\<lambda>c. \<not> hidden c) q
                      \<and> os_path_isdir fs_abc (os_path_join (Pth True [''P'']) (Pth False q))}"
    by simp
  with existing_examples(6-8) show ?thesis by blast
qed

lemma hidden_directory_example:
  "snd (DataSeries_create series_a [''.h''] fs0) = fs_hidden"
  "os_path_isdir fs_hidden (Pth True [''P'', ''.h''])"
  "DataFile_read loc_file (Pth True [''P'', ''.h'']) fs_hidden = Inr [''.h'']"
  "DataSeries_existing (Suc 0) series_a [] False fs_hidden = Inr []"
  by code_simp+

lemma bracket_prefix_example:
  "snd (DataSeries_create series_child [''a'', ''z'']
     (snd (DataSeries_create series_child [''[a]'', ''x''] fs0))) = fs_bracket"
  "DataSeries_path series_a [''[a]''] = Inr (Pth True [''P'', ''[a]''])"
  "DataSeries_path series_child [''[a]'', ''x''] = Inr (Pth True [''P'', ''[a]'', ''x''])"
  "DataSeries_exists series_child [''[a]'', ''x''] fs_bracket = Inr True"
  "DataFile_read loc_file (Pth True [''P'', ''[a]'', ''x'']) fs_bracket = Inr [''x'']"
  "DataSeries_exists series_child [''[a]'', ''z''] fs_bracket = Inr False"
  "DataSeries_existing (Suc 0) series_child [''[a]''] False fs_bracket = Inr [[''[a]'', ''z'']]"
  "DataSeries_existing (Suc (Suc 0)) series_child [] False fs_bracket
     = Inr [[''[a]'', ''z''], [''a'', ''z'']]"
  by code_simp+

text \<open>
  C5. \<open>existing\<close> does not enumerate the directories \<open>depth\<close> segments below the resolved
  prefix, because \<open>_existing_paths\<close> lists them with a glob pattern made of the prefix and
  stars. A star does not match a name that begins with a dot: after \<open>create\<close> of the locator
  \<open>.h\<close> the directory \<open>/P/.h\<close> exists and its locator file reads back \<open>.h\<close>, yet \<open>existing\<close>
  returns the empty list. The prefix is itself read as a pattern: after \<open>create\<close> of the
  locators \<open>[a], x\<close> and \<open>a, z\<close> in a chained series, the root locator \<open>[a]\<close> resolves to the
  prefix \<open>/P/[a]\<close>, where the directory \<open>x\<close> exists and its locator file reads back \<open>x\<close>; yet
  \<open>existing\<close> at that root locator returns the one locator \<open>[a], z\<close>, read under \<open>/P/a\<close>, for
  which no directory exists, and the locator \<open>[a], x\<close> is in no result of \<open>existing\<close>.
\<close>

theorem existing_misses_directories:
  "snd (DataSeries_create series_a [''.h''] fs0) = fs_hidden
   \<and> os_path_isdir fs_hidden (Pth True [''P'', ''.h''])
   \<and> DataFile_read loc_file (Pth True [''P'', ''.h'']) fs_hidden = Inr [''.h'']
   \<and> DataSeries_existing (Suc 0) series_a [] False fs_hidden = Inr []
   \<and> snd (DataSeries_create series_child [''a'', ''z'']
        (snd (DataSeries_create series_child [''[a]'', ''x''] fs0))) = fs_bracket
   \<and> DataSeries_path series_a [''[a]''] = Inr (Pth True [''P'', ''[a]''])
   \<and> DataSeries_path series_child [''[a]'', ''x''] = Inr (Pth True [''P'', ''[a]'', ''x''])
   \<and> DataSeries_exists series_child [''[a]'', ''x''] fs_bracket = Inr True
   \<and> DataFile_read loc_file (Pth True [''P'', ''[a]'', ''x'']) fs_bracket = Inr [''x'']
   \<and> DataSeries_exists series_child [''[a]'', ''z''] fs_bracket = Inr False
   \<and> DataSeries_existing (Suc 0) series_child [''[a]''] False fs_bracket = Inr [[''[a]'', ''z'']]
   \<and> DataSeries_existing (Suc (Suc 0)) series_child [] False fs_bracket
        = Inr [[''[a]'', ''z''], [''a'', ''z'']]"
  using hidden_directory_example bracket_prefix_example by blast

section \<open>Batch reads and writes of a document field\<close>

subsection \<open>Reading\<close>
















subsection \<open>Writing\<close>

lemma counters_lookup [simp]:
  "lookup (t\<lparr>doc_reads := n\<rparr>) p = lookup t p"
  "lookup (t\<lparr>doc_writes := n\<rparr>) p = lookup t p"
  "lookup_segs (t\<lparr>doc_reads := n\<rparr>) q = lookup_segs t q"
  "lookup_segs (t\<lparr>doc_writes := n\<rparr>) q = lookup_segs t q"
  "abs_segs (t\<lparr>doc_reads := n\<rparr>) p = abs_segs t p"
  "abs_segs (t\<lparr>doc_writes := n\<rparr>) p = abs_segs t p"
  "missing_error (t\<lparr>doc_reads := n\<rparr>) p = missing_error t p"
  "missing_error (t\<lparr>doc_writes := n\<rparr>) p = missing_error t p"
  by (simp_all add: lookup_def lookup_segs_def abs_segs_def missing_error_def under_file_def)

lemma counters_tests [simp]:
  "parent_error (t\<lparr>doc_reads := n\<rparr>) p = parent_error t p"
  "os_path_isdir (t\<lparr>doc_reads := n\<rparr>) p = os_path_isdir t p"
  "os_path_isfile (t\<lparr>doc_reads := n\<rparr>) p = os_path_isfile t p"
  "io_read_file p (t\<lparr>doc_reads := n\<rparr>) = io_read_file p t"
  "parent_error (t\<lparr>doc_writes := n\<rparr>) p = parent_error t p"
  "io_read_file p (t\<lparr>doc_writes := n\<rparr>) = io_read_file p t"
  by (simp_all add: parent_error_def os_path_isdir_def os_path_isfile_def io_read_file_def
      cong: option.case_cong node.case_cong)






















end
